theory Spec2Isabelle
  imports Main "HOL-Library.Word"
begin

section \<open>Data of \<open>main.go\<close>\<close>

text \<open>
  A Go \<open>error\<close> that is not nil is represented by its message. Where Go hands over a
  value of type \<open>error\<close> that may be nil (a receive from an error channel), the model
  uses \<open>error option\<close>, with \<open>None\<close> for nil.
\<close>

type_synonym error = string

text \<open>
  \<open>url.URL\<close>, with the fields a listen address can carry. \<open>main.go\<close> reads only
  \<open>Scheme\<close>; the other fields are what "unmodified" refers to.
\<close>

record URL =
  Scheme :: string
  Opaque :: string
  Host :: string
  Path :: string
  RawQuery :: string
  Fragment :: string

text \<open>The struct \<open>Config\<close>; \<open>time.Duration\<close> is a 64-bit count of nanoseconds.\<close>

record Config =
  ListenOn :: "URL list"
  Name :: string
  MaxTokenLifetime :: "64 word"
  RegistryServerPolicies :: "string list"
  RegistryClientPolicies :: "string list"
  MapIPFilePath :: string
  RegistryProxyURL :: "URL option"
  RegistryURL :: "URL option"
  LogLevel :: string
  OpenTelemetryEndpoint :: string

text \<open>The value of \<open>&Config{}\<close>: every field zero.\<close>

definition zeroConfig :: Config where
  "zeroConfig = \<lparr>ListenOn = [], Name = [], MaxTokenLifetime = 0,
     RegistryServerPolicies = [], RegistryClientPolicies = [], MapIPFilePath = [],
     RegistryProxyURL = None, RegistryURL = None, LogLevel = [],
     OpenTelemetryEndpoint = []\<rparr>"

text \<open>
  A run-time panic of the Go runtime: an index expression \<open>xs[i]\<close> with
  \<open>i \<ge> len(xs)\<close>, carrying the index and the length.
\<close>

datatype panic = IndexOutOfRange nat nat

section \<open>Representative selection: \<open>defaultURL\<close>\<close>

text \<open>
  The loop \<open>for i := 0; i < len(listenOn); i++\<close> of \<open>defaultURL\<close>, from counter \<open>i\<close>:
  the index of the element whose address the loop returns, or \<open>None\<close> when the loop
  runs to its end without returning.
\<close>

function scan :: "URL list \<Rightarrow> nat \<Rightarrow> nat option" where
  "scan listenOn i =
     (if i < length listenOn
      then (if Scheme (listenOn ! i) = ''tcp'' then Some i else scan listenOn (i + 1))
      else None)"
  by pat_completeness auto
termination
  by (relation "measure (\<lambda>(listenOn, i). length listenOn - i)") auto

declare scan.simps [simp del]

text \<open>
  \<open>defaultURL\<close> returns a pointer to an element of its argument; the model returns the
  element's index. After the loop comes \<open>return &listenOn[0]\<close>, which panics on an
  empty slice.
\<close>

definition defaultURL :: "URL list \<Rightarrow> panic + nat" where
  "defaultURL listenOn =
     (case scan listenOn 0 of
        Some i \<Rightarrow> Inr i
      | None \<Rightarrow>
          if 0 < length listenOn then Inr 0
          else Inl (IndexOutOfRange 0 (length listenOn)))"

subsection \<open>Sample addresses\<close>

definition mkURL :: "string \<Rightarrow> string \<Rightarrow> string \<Rightarrow> URL" where
  "mkURL s h p = \<lparr>Scheme = s, Opaque = [], Host = h, Path = p, RawQuery = [], Fragment = []\<rparr>"

definition unixURL :: URL where
  "unixURL = mkURL ''unix'' [] ''/listen.on.socket''"

definition tcpURL :: URL where
  "tcpURL = mkURL ''tcp'' ''0.0.0.0:5006'' []"

definition tcpURL2 :: URL where
  "tcpURL2 = mkURL ''tcp'' ''127.0.0.1:5007'' []"

section \<open>Logging\<close>

text \<open>
  The levels of logrus. The model records every logging call in order: its level, its
  format string when it has one, and its arguments. Which of them the level set by
  \<open>logrus.SetLevel\<close> lets through to the output is not modelled.
\<close>

datatype level =
  PanicLevel | FatalLevel | ErrorLevel | WarnLevel | InfoLevel | DebugLevel | TraceLevel

datatype arg = AErr "error option" | AStr string | AConfig Config | AURL URL | AElapsed

datatype log_entry = Log level "arg list" | Logf level string "arg list"

fun level_of :: "log_entry \<Rightarrow> level" where
  "level_of (Log l _) = l"
| "level_of (Logf l _ _) = l"

section \<open>Identity and transport credentials\<close>

text \<open>
  Modelled from the spec: the packages \<open>workloadapi\<close> and \<open>tlsconfig\<close> of go-spiffe
  and \<open>crypto/tls\<close> are not part of the sources. An X.509 certificate is its SPIFFE ID
  and the authority that issued it; an \<open>X509Source\<close> answers \<open>GetX509SVID\<close> and holds
  the authorities of its trust bundle.
\<close>

record certificate =
  subject :: string
  issuer :: string

record X509Source =
  GetX509SVID :: "error + certificate"
  authorities :: "string list"

datatype authorizer = AuthorizeAny | AuthorizeID string

text \<open>
  Modelled from the spec: a \<open>tls.Config\<close> is described by the \<open>tlsconfig\<close>
  constructor that made it (mutual TLS or one-way TLS, client or server side), the
  sources and the authorizer it was given, and \<open>MinVersion\<close>.
\<close>

datatype handshake = MTLSClient | MTLSServer | TLSClient | TLSServer

record tls_Config =
  kind :: handshake
  svidSource :: "X509Source option"
  bundleSource :: "X509Source option"
  authorize :: authorizer
  MinVersion :: "16 word"

definition MTLSClientConfig :: "X509Source \<Rightarrow> X509Source \<Rightarrow> authorizer \<Rightarrow> tls_Config" where
  "MTLSClientConfig svid bundle a =
     \<lparr>kind = MTLSClient, svidSource = Some svid, bundleSource = Some bundle,
      authorize = a, MinVersion = 0\<rparr>"

definition MTLSServerConfig :: "X509Source \<Rightarrow> X509Source \<Rightarrow> authorizer \<Rightarrow> tls_Config" where
  "MTLSServerConfig svid bundle a =
     \<lparr>kind = MTLSServer, svidSource = Some svid, bundleSource = Some bundle,
      authorize = a, MinVersion = 0\<rparr>"

text \<open>The constants \<open>tls.VersionTLS10\<close> to \<open>tls.VersionTLS13\<close>.\<close>

definition VersionTLS10 :: "16 word" where "VersionTLS10 = 0x0301"
definition VersionTLS11 :: "16 word" where "VersionTLS11 = 0x0302"
definition VersionTLS12 :: "16 word" where "VersionTLS12 = 0x0303"
definition VersionTLS13 :: "16 word" where "VersionTLS13 = 0x0304"

text \<open>
  Modelled from the spec: the policy such a configuration enforces on a peer. The peer
  is what it presents as certificate, if anything, and the protocol version negotiated
  with it. A one-way TLS server asks no certificate of its client; every other kind
  verifies the peer's certificate against the trust bundle and then asks the authorizer
  about its SPIFFE ID. A one-way TLS client presents no certificate of its own.
\<close>

record peer =
  presented :: "certificate option"
  version :: "16 word"

fun authorized :: "authorizer \<Rightarrow> string \<Rightarrow> bool" where
  "authorized AuthorizeAny ident = True"
| "authorized (AuthorizeID x) ident = (ident = x)"

definition verifies :: "X509Source option \<Rightarrow> certificate \<Rightarrow> bool" where
  "verifies bundle crt =
     (case bundle of None \<Rightarrow> False | Some src \<Rightarrow> issuer crt \<in> set (authorities src))"

definition admits :: "tls_Config \<Rightarrow> peer \<Rightarrow> bool" where
  "admits c p =
     (MinVersion c \<le> version p \<and>
      (case kind c of
         TLSServer \<Rightarrow> True
       | _ \<Rightarrow>
          (case presented p of
             None \<Rightarrow> False
           | Some crt \<Rightarrow> verifies (bundleSource c) crt \<and> authorized (authorize c) (subject crt))))"

definition presents :: "tls_Config \<Rightarrow> X509Source option" where
  "presents c = (case kind c of TLSClient \<Rightarrow> None | _ \<Rightarrow> svidSource c)"

text \<open>Lines 139 to 142 of \<open>main\<close>: the two configurations derived from the source.\<close>

definition tlsClientConfig :: "X509Source \<Rightarrow> tls_Config" where
  "tlsClientConfig source = (MTLSClientConfig source source AuthorizeAny)\<lparr>MinVersion := VersionTLS12\<rparr>"

definition tlsServerConfig :: "X509Source \<Rightarrow> tls_Config" where
  "tlsServerConfig source = (MTLSServerConfig source source AuthorizeAny)\<lparr>MinVersion := VersionTLS12\<rparr>"

text \<open>
  What \<open>main\<close> hands on: the credentials of the gRPC server (\<open>grpc.Creds\<close>), the
  transport credentials of the dial options, and the lifetime given to the token
  generator.
\<close>

record credentials =
  serverTLS :: tls_Config
  dialTLS :: tls_Config
  tokenLifetime :: "64 word"

section \<open>The environment of the process\<close>

text \<open>
  Everything \<open>main\<close> calls outside \<open>main.go\<close> is a field of the environment, with the
  result the call gives:
  \<^item> \<open>debug.Self\<close>, \<open>envconfig.Usage\<close>, \<open>envconfig.Process\<close> (the populated
    configuration or an error), \<open>logrus.ParseLevel\<close>, \<open>workloadapi.NewX509Source\<close>,
    \<open>net.InterfaceAddrs\<close> and \<open>listenonurl.GetPublicURL\<close>;
  \<^item> \<open>grpcutils.ListenAndServe\<close>: for the call of loop counter \<open>i\<close> with address
    \<open>u\<close>, what the \<open>select\<close> of \<open>exitOnErr\<close> finds on the returned channel: \<open>None\<close>
    when nothing is ready (the \<open>default\<close> branch), \<open>Some err\<close> when a value is.
  The callees are taken not to write through the \<open>*url.URL\<close> they receive, so a
  pointer is modelled by the value it points to. The OpenTelemetry block of \<open>main\<close>
  touches nothing that is modelled and is left out.
\<close>

type_synonym addr = string

record env =
  debugSelf :: "error option"
  envconfigUsage :: "error option"
  envconfigProcess :: "error + Config"
  parseLevel :: "string \<Rightarrow> error + level"
  newX509Source :: "error + X509Source"
  interfaceAddrs :: "error + addr list"
  getPublicURL :: "addr list \<Rightarrow> URL \<Rightarrow> URL"
  listenAndServe :: "nat \<Rightarrow> URL \<Rightarrow> error option option"

section \<open>The process\<close>

text \<open>
  Where the main goroutine stands: before the listener loop, at loop counter \<open>i\<close>,
  blocked on \<open>ctx.Done()\<close>, or gone (exit status, or a panic).
\<close>

datatype pc = AtStartup | AtLoop nat | AtWait | Exited nat | Panicked panic

text \<open>
  The state of the process:
  \<^item> \<open>ctxDone\<close>: the channel \<open>ctx.Done()\<close> is closed; \<open>closes\<close>: how many times it has
    been closed, that is, how many cancellations took effect;
  \<^item> \<open>started\<close>: the addresses passed to \<open>grpcutils.ListenAndServe\<close>, in order;
  \<^item> \<open>watching\<close>: the listeners whose goroutine of \<open>exitOnErr\<close> is blocked on
    \<open>errCh\<close>;
  \<^item> \<open>logs\<close>, and the local variables \<open>config\<close>, \<open>listenURL\<close> and the credentials.
\<close>

record proc =
  pc :: pc
  ctxDone :: bool
  closes :: nat
  started :: "URL list"
  watching :: "nat list"
  logs :: "log_entry list"
  logrusLevel :: level
  config :: Config
  listenURL :: "URL option"
  creds :: "credentials option"

definition init :: proc where
  "init = \<lparr>pc = AtStartup, ctxDone = False, closes = 0, started = [], watching = [],
     logs = [], logrusLevel = InfoLevel, config = zeroConfig, listenURL = None,
     creds = None\<rparr>"

fun alive :: "proc \<Rightarrow> bool" where
  "alive s = (case pc s of Exited c \<Rightarrow> False | Panicked p \<Rightarrow> False | _ \<Rightarrow> True)"

definition emit :: "log_entry \<Rightarrow> proc \<Rightarrow> proc" where
  "emit en s = s\<lparr>logs := logs s @ [en]\<rparr>"

text \<open>
  Modelled from the spec: \<open>Fatal\<close> and \<open>Fatalf\<close> of the loggers log the entry and end
  the process with status 1; deferred calls do not run.
\<close>

definition fatal :: "log_entry \<Rightarrow> proc \<Rightarrow> proc" where
  "fatal en s = (emit en s)\<lparr>pc := Exited 1\<rparr>"

text \<open>
  Modelled from the spec: the \<open>cancel\<close> returned by \<open>signal.NotifyContext\<close>, of the
  package \<open>context\<close>. The first call closes \<open>ctx.Done()\<close>; a call on a context that is
  already done does nothing.
\<close>

definition cancel :: "proc \<Rightarrow> proc" where
  "cancel s = (if ctxDone s then s else s\<lparr>ctxDone := True, closes := closes s + 1\<rparr>)"

text \<open>A panic in \<open>main\<close> runs the deferred \<open>cancel()\<close> and ends the process.\<close>

definition crash :: "panic \<Rightarrow> proc \<Rightarrow> proc" where
  "crash p s = (cancel s)\<lparr>pc := Panicked p\<rparr>"

subsection \<open>\<open>getPublishableURL\<close>\<close>

text \<open>
  The result is the panic of \<open>defaultURL\<close>, or the logging calls made and the URL
  returned.
\<close>

definition getPublishableURL :: "env \<Rightarrow> URL list \<Rightarrow> panic + log_entry list \<times> URL" where
  "getPublishableURL e listenOn =
     (case defaultURL listenOn of
        Inl p \<Rightarrow> Inl p
      | Inr i \<Rightarrow>
          (case interfaceAddrs e of
             Inl err \<Rightarrow> Inr ([Log WarnLevel [AStr err]], listenOn ! i)
           | Inr addrs \<Rightarrow> Inr ([], getPublicURL e addrs (listenOn ! i))))"

subsection \<open>\<open>exitOnErr\<close>\<close>

text \<open>
  The \<open>select\<close> of \<open>exitOnErr\<close> for listener \<open>i\<close>: a value that is ready on the channel
  is logged with \<open>Fatal\<close>; otherwise the goroutine is started, which blocks on the
  channel.
\<close>

definition exitOnErr :: "error option option \<Rightarrow> nat \<Rightarrow> proc \<Rightarrow> proc" where
  "exitOnErr errCh i s =
     (case errCh of
        Some err \<Rightarrow> fatal (Log FatalLevel [AErr err]) s
      | None \<Rightarrow> s\<lparr>watching := watching s @ [i]\<rparr>)"

text \<open>
  The goroutine of \<open>exitOnErr\<close> for listener \<open>i\<close>, once it receives \<open>err\<close> from the
  channel (nil when the channel was closed without an error): it logs with \<open>Error\<close>
  and calls \<open>cancel()\<close>.
\<close>

definition watcher :: "nat \<Rightarrow> error option \<Rightarrow> proc \<Rightarrow> proc" where
  "watcher i err s =
     cancel (emit (Log ErrorLevel [AErr err]) (s\<lparr>watching := removeAll i (watching s)\<rparr>))"

subsection \<open>\<open>main\<close>\<close>

text \<open>Lines 85 to 185 of \<open>main\<close>: everything before the listener loop.\<close>

definition startup :: "env \<Rightarrow> proc \<Rightarrow> proc" where
  "startup e s0 =
     (let s1 = (case debugSelf e of
                  Some err \<Rightarrow> emit (Logf InfoLevel ''%s'' [AErr (Some err)]) s0
                | None \<Rightarrow> s0)
      in case envconfigUsage e of
        Some err \<Rightarrow> fatal (Log FatalLevel [AErr (Some err)]) s1
      | None \<Rightarrow>
      (case envconfigProcess e of
        Inl err \<Rightarrow>
          fatal (Logf FatalLevel ''error processing config from env: %+v'' [AErr (Some err)]) s1
      | Inr cfg \<Rightarrow>
      (case parseLevel e (LogLevel cfg) of
        Inl err \<Rightarrow>
          fatal (Logf FatalLevel ''invalid log level %s'' [AStr (LogLevel cfg)])
            (s1\<lparr>config := cfg\<rparr>)
      | Inr l \<Rightarrow>
      (let s2 = emit (Logf InfoLevel ''Config: %#v'' [AConfig cfg])
                  (s1\<lparr>config := cfg, logrusLevel := l\<rparr>)
       in case newX509Source e of
        Inl err \<Rightarrow>
          fatal (Logf FatalLevel ''error getting x509 source: %+v'' [AErr (Some err)]) s2
      | Inr source \<Rightarrow>
      (case GetX509SVID source of
        Inl err \<Rightarrow>
          fatal (Logf FatalLevel ''error getting x509 svid: %+v'' [AErr (Some err)]) s2
      | Inr svid \<Rightarrow>
      (let s3 = (emit (Logf InfoLevel ''SVID: %q'' [AStr (subject svid)]) s2)
                  \<lparr>creds := Some \<lparr>serverTLS = tlsServerConfig source,
                                   dialTLS = tlsClientConfig source,
                                   tokenLifetime = MaxTokenLifetime cfg\<rparr>\<rparr>
       in case getPublishableURL e (ListenOn cfg) of
        Inl p \<Rightarrow> crash p s3
      | Inr (entries, u) \<Rightarrow>
          (emit (Logf InfoLevel ''Listening url: %v'' [AURL u])
             (s3\<lparr>logs := logs s3 @ entries\<rparr>))
            \<lparr>listenURL := Some u, pc := AtLoop 0\<rparr>))))))"

text \<open>
  One step of the main goroutine: the startup; one pass of the loop
  \<open>for i := 0; i < len(config.ListenOn); i++\<close> (the call of \<open>ListenAndServe\<close> with
  \<open>&config.ListenOn[i]\<close>, then \<open>exitOnErr\<close>), or the end of the loop with its log line;
  the receive from \<open>ctx.Done()\<close>, after which \<open>main\<close> returns, the deferred \<open>cancel()\<close>
  runs and the process ends with status 0.
\<close>

definition main_step :: "env \<Rightarrow> proc \<Rightarrow> proc" where
  "main_step e s =
     (case pc s of
        AtStartup \<Rightarrow> startup e s
      | AtLoop i \<Rightarrow>
          if i < length (ListenOn (config s))
          then (let u = ListenOn (config s) ! i;
                    s1 = exitOnErr (listenAndServe e i u) i (s\<lparr>started := started s @ [u]\<rparr>)
                in if alive s1 then s1\<lparr>pc := AtLoop (i + 1)\<rparr> else s1)
          else (emit (Logf InfoLevel ''Startup completed in %v'' [AElapsed]) s)\<lparr>pc := AtWait\<rparr>
      | AtWait \<Rightarrow> if ctxDone s then (cancel s)\<lparr>pc := Exited 0\<rparr> else s
      | Exited c \<Rightarrow> s
      | Panicked p \<Rightarrow> s)"

subsection \<open>Interleaving\<close>

text \<open>
  The goroutines run interleaved. A schedule is the order of their steps: a step of the
  main goroutine, the goroutine of listener \<open>i\<close> receiving a value from its channel,
  or a signal of those registered with \<open>signal.NotifyContext\<close>, which cancels the
  context. A goroutine that is not blocked on its channel receives nothing, and nothing
  happens once the process has ended.
\<close>

datatype event = Main | Deliver nat "error option" | Signal

definition step :: "env \<Rightarrow> event \<Rightarrow> proc \<Rightarrow> proc" where
  "step e ev s =
     (if \<not> alive s then s
      else case ev of
        Main \<Rightarrow> main_step e s
      | Deliver i err \<Rightarrow> if i \<in> set (watching s) then watcher i err s else s
      | Signal \<Rightarrow> cancel s)"

fun run :: "env \<Rightarrow> event list \<Rightarrow> proc \<Rightarrow> proc" where
  "run e [] s = s"
| "run e (ev # evs) s = run e evs (step e ev s)"

subsection \<open>Sample environments\<close>

definition sampleSource :: X509Source where
  "sampleSource =
     \<lparr>GetX509SVID = Inr \<lparr>subject = ''spiffe://example.org/nsmgr-proxy'', issuer = ''example.org''\<rparr>,
      authorities = [''example.org'']\<rparr>"

definition sampleConfig :: "URL list \<Rightarrow> Config" where
  "sampleConfig listenOn = zeroConfig\<lparr>ListenOn := listenOn, Name := ''nsmgr-proxy'',
     LogLevel := ''INFO''\<rparr>"

definition sampleEnv :: "URL list \<Rightarrow> (nat \<Rightarrow> error option option) \<Rightarrow> env" where
  "sampleEnv listenOn ready =
     \<lparr>debugSelf = None, envconfigUsage = None,
      envconfigProcess = Inr (sampleConfig listenOn),
      parseLevel = (\<lambda>l. if l = ''INFO'' then Inr InfoLevel else Inl ''not a valid logrus Level''),
      newX509Source = Inr sampleSource,
      interfaceAddrs = Inr [''127.0.0.1/8'', ''10.0.0.5/24''],
      getPublicURL =
        (\<lambda>addrs u. if Scheme u = ''tcp'' then u\<lparr>Host := ''10.0.0.5:5006''\<rparr> else u),
      listenAndServe = (\<lambda>i u. ready i)\<rparr>"

section \<open>Predicates and invariants\<close>

text \<open>
  What the \<open>select\<close> of \<open>exitOnErr\<close> finds for listener \<open>k\<close> of a configuration.
\<close>

definition polled :: "env \<Rightarrow> Config \<Rightarrow> nat \<Rightarrow> error option option" where
  "polled e cfg k = listenAndServe e k (ListenOn cfg ! k)"

fun isRight :: "'a + 'b \<Rightarrow> bool" where
  "isRight (Inl a) = False"
| "isRight (Inr b) = True"

text \<open>
  The startup reaches the listener loop: the configuration is read and its log level
  parses, the X.509 source and its SVID are obtained, and the list of listen addresses
  is not empty.
\<close>

definition boots :: "env \<Rightarrow> Config \<Rightarrow> bool" where
  "boots e cfg =
     (envconfigUsage e = None \<and> envconfigProcess e = Inr cfg \<and>
      isRight (parseLevel e (LogLevel cfg)) \<and>
      (case newX509Source e of Inl err \<Rightarrow> False | Inr source \<Rightarrow> isRight (GetX509SVID source)) \<and>
      ListenOn cfg \<noteq> [])"


text \<open>
  The invariant of the listener loop for a configuration \<open>cfg\<close>: the addresses passed
  to \<open>ListenAndServe\<close> are a prefix of \<open>ListenOn cfg\<close>; a listener whose error was
  ready at its poll is the last one started, and the process has then ended with status
  1 after logging that error with \<open>Fatal\<close>; the loop counter is the number of
  listeners started.
\<close>

definition loop_inv :: "env \<Rightarrow> Config \<Rightarrow> proc \<Rightarrow> bool" where
  "loop_inv e cfg s =
     (started s = take (length (started s)) (ListenOn cfg) \<and>
      length (started s) \<le> length (ListenOn cfg) \<and>
      (\<forall>k err. k < length (started s) \<and> polled e cfg k = Some err \<longrightarrow>
         Suc k = length (started s) \<and> pc s = Exited 1 \<and> logs s \<noteq> [] \<and>
         last (logs s) = Log FatalLevel [AErr err]) \<and>
      (case pc s of
         AtStartup \<Rightarrow> started s = []
       | AtLoop i \<Rightarrow> config s = cfg \<and> length (started s) = i
       | AtWait \<Rightarrow> config s = cfg \<and> length (started s) = length (ListenOn cfg)
       | Exited c \<Rightarrow> c = 0 \<longrightarrow> length (started s) = length (ListenOn cfg)
       | Panicked p \<Rightarrow> started s = []))"

text \<open>
  Two states agree when they differ at most in their logs and in the published URL.
\<close>

definition agree :: "proc \<Rightarrow> proc \<Rightarrow> bool" where
  "agree s t =
     (pc s = pc t \<and> ctxDone s = ctxDone t \<and> closes s = closes t \<and> started s = started t \<and>
      watching s = watching t \<and> config s = config t \<and> creds s = creds t)"

subsection \<open>More sample environments\<close>

text \<open>
  Two listeners that start; three listeners of which the first, or the second, has its
  error ready at the poll; a failing interface enumeration; a failing X.509 source; an
  empty list of listen addresses.
\<close>

definition env2 :: env where
  "env2 = sampleEnv [unixURL, tcpURL] (\<lambda>i. None)"

definition env3 :: env where
  "env3 = sampleEnv [unixURL, tcpURL, tcpURL2]
     (\<lambda>i. if i = 0 then Some (Some ''bind: address already in use'') else None)"

definition env4 :: env where
  "env4 = sampleEnv [unixURL, tcpURL, tcpURL2]
     (\<lambda>i. if i = 1 then Some (Some ''bind: address already in use'') else None)"

definition envNoIfaces :: env where
  "envNoIfaces = env2\<lparr>interfaceAddrs := Inl ''route ip+net: netlinkrib: too many open files''\<rparr>"

definition envNoIdentity :: env where
  "envNoIdentity = env2\<lparr>newX509Source := Inl ''workload endpoint socket address is not configured''\<rparr>"

definition envEmpty :: env where
  "envEmpty = sampleEnv [] (\<lambda>i. None)"

section \<open>Properties of the scan\<close>

lemma scan_Some_bounds:
  "scan listenOn i = Some k \<Longrightarrow> i \<le> k \<and> k < length listenOn"
proof (induction listenOn i rule: scan.induct)
  case (1 listenOn i)
  show ?case
  proof (cases "i < length listenOn \<and> Scheme (listenOn ! i) \<noteq> ''tcp''")
    case True
    with "1.prems" have "scan listenOn (i + 1) = Some k"
      by (subst (asm) scan.simps) simp
    with True "1.IH" show ?thesis by fastforce
  next
    case False
    with "1.prems" show ?thesis
      by (subst (asm) scan.simps) (auto split: if_splits)
  qed
qed

lemma scan_Some_tcp:
  "scan listenOn i = Some k \<Longrightarrow> Scheme (listenOn ! k) = ''tcp''"
proof (induction listenOn i rule: scan.induct)
  case (1 listenOn i)
  show ?case
  proof (cases "i < length listenOn \<and> Scheme (listenOn ! i) \<noteq> ''tcp''")
    case True
    with "1.prems" have "scan listenOn (i + 1) = Some k"
      by (subst (asm) scan.simps) simp
    with True "1.IH" show ?thesis by simp
  next
    case False
    with "1.prems" show ?thesis
      by (subst (asm) scan.simps) (auto split: if_splits)
  qed
qed

lemma scan_Some_first:
  "scan listenOn i = Some k \<Longrightarrow> i \<le> j \<Longrightarrow> j < k \<Longrightarrow> Scheme (listenOn ! j) \<noteq> ''tcp''"
proof (induction listenOn i rule: scan.induct)
  case (1 listenOn i)
  show ?case
  proof (cases "i < length listenOn \<and> Scheme (listenOn ! i) \<noteq> ''tcp''")
    case True
    with "1.prems" have next_scan: "scan listenOn (i + 1) = Some k"
      by (subst (asm) scan.simps) simp
    show ?thesis
    proof (cases "j = i")
      case True
      with \<open>i < length listenOn \<and> Scheme (listenOn ! i) \<noteq> ''tcp''\<close> show ?thesis by simp
    next
      case False
      with "1.prems" have "i + 1 \<le> j" by simp
      with True next_scan "1.IH" "1.prems" show ?thesis by simp
    qed
  next
    case False
    with "1.prems" have "k = i"
      by (subst (asm) scan.simps) (auto split: if_splits)
    with "1.prems" show ?thesis by simp
  qed
qed

lemma scan_None:
  "scan listenOn i = None \<Longrightarrow> i \<le> j \<Longrightarrow> j < length listenOn \<Longrightarrow>
   Scheme (listenOn ! j) \<noteq> ''tcp''"
proof (induction listenOn i rule: scan.induct)
  case (1 listenOn i)
  from "1.prems" have i_lt: "i < length listenOn" by simp
  with "1.prems" have not_tcp: "Scheme (listenOn ! i) \<noteq> ''tcp''"
    by (subst (asm) scan.simps) (auto split: if_splits)
  with i_lt "1.prems" have next_scan: "scan listenOn (i + 1) = None"
    by (subst (asm) scan.simps) simp
  show ?case
  proof (cases "j = i")
    case True
    with not_tcp show ?thesis by simp
  next
    case False
    with "1.prems" have "i + 1 \<le> j" by simp
    with i_lt not_tcp next_scan "1.IH" "1.prems" show ?thesis by simp
  qed
qed

lemma scan_no_tcp:
  "\<forall>u\<in>set listenOn. Scheme u \<noteq> ''tcp'' \<Longrightarrow> scan listenOn i = None"
proof (cases "scan listenOn i")
  case None
  then show ?thesis .
next
  case (Some k)
  assume no_tcp: "\<forall>u\<in>set listenOn. Scheme u \<noteq> ''tcp''"
  from Some have "k < length listenOn" and "Scheme (listenOn ! k) = ''tcp''"
    by (simp_all add: scan_Some_bounds scan_Some_tcp)
  with no_tcp show ?thesis by (metis nth_mem)
qed

lemma scan_has_tcp:
  assumes "u \<in> set listenOn" and "Scheme u = ''tcp''"
  shows "\<exists>k. scan listenOn 0 = Some k"
proof (cases "scan listenOn 0")
  case (Some k)
  then show ?thesis by simp
next
  case None
  from assms(1) obtain j where "j < length listenOn" and "listenOn ! j = u"
    by (auto simp: in_set_conv_nth)
  with None scan_None [of listenOn 0 j] assms(2) show ?thesis by simp
qed

lemma defaultURL_in_bounds:
  "defaultURL listenOn = Inr i \<Longrightarrow> i < length listenOn"
  by (auto simp: defaultURL_def split: option.splits if_splits dest: scan_Some_bounds)

lemma defaultURL_nonempty:
  "listenOn \<noteq> [] \<Longrightarrow> \<exists>i. defaultURL listenOn = Inr i \<and> i < length listenOn"
  by (auto simp: defaultURL_def split: option.splits dest: scan_Some_bounds)

section \<open>Properties of the process\<close>

subsection \<open>Fields after each operation\<close>

lemma cancel_fields [simp]:
  "pc (cancel s) = pc s" "started (cancel s) = started s" "watching (cancel s) = watching s"
  "logs (cancel s) = logs s" "config (cancel s) = config s" "listenURL (cancel s) = listenURL s"
  "creds (cancel s) = creds s" "ctxDone (cancel s) = True"
  by (simp_all add: cancel_def)

lemma cancel_closes: "closes (cancel s) = (if ctxDone s then closes s else closes s + 1)"
  by (simp add: cancel_def)




lemma emit_fields [simp]:
  "pc (emit en s) = pc s" "started (emit en s) = started s" "watching (emit en s) = watching s"
  "logs (emit en s) = logs s @ [en]" "config (emit en s) = config s"
  "ctxDone (emit en s) = ctxDone s" "closes (emit en s) = closes s"
  "creds (emit en s) = creds s" "listenURL (emit en s) = listenURL s"
  by (simp_all add: emit_def)

lemma fatal_fields [simp]:
  "pc (fatal en s) = Exited 1" "started (fatal en s) = started s"
  "watching (fatal en s) = watching s"
  "logs (fatal en s) = logs s @ [en]" "config (fatal en s) = config s"
  "ctxDone (fatal en s) = ctxDone s" "closes (fatal en s) = closes s"
  "creds (fatal en s) = creds s" "listenURL (fatal en s) = listenURL s"
  by (simp_all add: fatal_def)

lemma crash_fields [simp]:
  "pc (crash p s) = Panicked p" "started (crash p s) = started s"
  "watching (crash p s) = watching s"
  "logs (crash p s) = logs s" "config (crash p s) = config s"
  "ctxDone (crash p s) = True" "closes (crash p s) = closes (cancel s)"
  "creds (crash p s) = creds s" "listenURL (crash p s) = listenURL s"
  by (simp_all add: crash_def)

lemma watcher_fields [simp]:
  "pc (watcher i err s) = pc s" "started (watcher i err s) = started s"
  "watching (watcher i err s) = removeAll i (watching s)"
  "logs (watcher i err s) = logs s @ [Log ErrorLevel [AErr err]]"
  "config (watcher i err s) = config s" "ctxDone (watcher i err s) = True"
  "closes (watcher i err s) = (if ctxDone s then closes s else closes s + 1)"
  "creds (watcher i err s) = creds s" "listenURL (watcher i err s) = listenURL s"
  by (simp_all add: watcher_def cancel_closes)

lemma startup_started [simp]: "started (startup e s) = started s"
  by (simp add: startup_def Let_def split: option.splits sum.splits prod.splits)

lemma startup_watching [simp]: "watching (startup e s) = watching s"
  by (simp add: startup_def Let_def split: option.splits sum.splits prod.splits)



lemma startup_boots:
  "boots e cfg \<Longrightarrow> pc (startup e s) = AtLoop 0 \<and> config (startup e s) = cfg"
  by (auto simp add: startup_def boots_def getPublishableURL_def Let_def split: option.splits sum.splits prod.splits
       dest: defaultURL_nonempty)

lemma step_dead: "\<not> alive s \<Longrightarrow> step e ev s = s"
  by (simp add: step_def)

lemma run_dead: "\<not> alive s \<Longrightarrow> run e sched s = s"
  by (induction sched) (simp_all add: step_dead)

subsection \<open>The context\<close>






subsection \<open>The listener loop\<close>

lemma loop_inv_alive_clean:
  "loop_inv e cfg s \<Longrightarrow> alive s \<Longrightarrow> k < length (started s) \<Longrightarrow> polled e cfg k = None"
  by (cases "polled e cfg k") (auto simp: loop_inv_def)

lemma loop_inv_frame:
  assumes inv: "loop_inv e cfg s" and alive: "alive s"
    and frame: "pc s' = pc s" "started s' = started s" "config s' = config s"
  shows "loop_inv e cfg s'"
proof -
  have clean: "\<And>k. k < length (started s) \<Longrightarrow> polled e cfg k = None"
    using loop_inv_alive_clean [OF inv alive] by simp
  have fail: "\<forall>k err. k < length (started s') \<and> polled e cfg k = Some err \<longrightarrow>
      Suc k = length (started s') \<and> pc s' = Exited 1 \<and> logs s' \<noteq> [] \<and>
      last (logs s') = Log FatalLevel [AErr err]"
    using clean frame by auto
  from inv have rest: "started s = take (length (started s)) (ListenOn cfg)"
    "length (started s) \<le> length (ListenOn cfg)"
    "(case pc s of
         AtStartup \<Rightarrow> started s = []
       | AtLoop i \<Rightarrow> config s = cfg \<and> length (started s) = i
       | AtWait \<Rightarrow> config s = cfg \<and> length (started s) = length (ListenOn cfg)
       | Exited c \<Rightarrow> c = 0 \<longrightarrow> length (started s) = length (ListenOn cfg)
       | Panicked p \<Rightarrow> started s = [])"
    by (simp_all add: loop_inv_def)
  show ?thesis
    unfolding loop_inv_def frame using fail rest by (simp add: frame)
qed

lemma loop_inv_init: "loop_inv e cfg init"
  by (simp add: loop_inv_def init_def)

lemma loop_inv_startup:
  assumes "envconfigProcess e = Inr cfg" and "loop_inv e cfg s" and "pc s = AtStartup"
  shows "loop_inv e cfg (startup e s)"
proof -
  from assms(2,3) have nil: "started s = []" by (simp add: loop_inv_def)
  have "pc (startup e s) = AtLoop 0 \<and> config (startup e s) = cfg \<or>
        pc (startup e s) = Exited 1 \<or> (\<exists>p. pc (startup e s) = Panicked p)"
    using assms(1)
    by (simp add: startup_def Let_def split: option.splits sum.splits prod.splits)
  with nil show ?thesis
    by (auto simp: loop_inv_def)
qed

lemma loop_inv_attempt:
  assumes inv: "loop_inv e cfg s" and pc: "pc s = AtLoop i" and lt: "i < length (ListenOn (config s))"
  shows "loop_inv e cfg (main_step e s)"
proof -
  from inv pc have cfg: "config s = cfg" and len: "length (started s) = i"
    and pre: "started s = take i (ListenOn cfg)"
    by (auto simp: loop_inv_def)
  from pc have alive: "alive s" by simp
  from cfg lt have lt': "i < length (ListenOn cfg)" by simp
  have clean: "\<And>k. k < i \<Longrightarrow> polled e cfg k = None"
    using loop_inv_alive_clean [OF inv alive] len by simp
  have app: "started s @ [ListenOn cfg ! i] = take (Suc i) (ListenOn cfg)"
    using pre lt' by (simp add: take_Suc_conv_app_nth)
  show ?thesis
  proof (cases "polled e cfg i")
    case None
    then have "main_step e s = s\<lparr>started := started s @ [ListenOn cfg ! i],
        watching := watching s @ [i], pc := AtLoop (i + 1)\<rparr>"
      using pc lt cfg by (simp add: main_step_def exitOnErr_def polled_def)
    moreover have "\<And>k. k < Suc i \<Longrightarrow> polled e cfg k = None"
      using clean None by (auto simp: less_Suc_eq)
    ultimately show ?thesis
      using app lt' cfg len by (simp add: loop_inv_def)
  next
    case (Some err)
    then have ms: "main_step e s =
        fatal (Log FatalLevel [AErr err]) (s\<lparr>started := started s @ [ListenOn cfg ! i]\<rparr>)"
      using pc lt cfg by (simp add: main_step_def exitOnErr_def polled_def)
    have "\<And>k err'. k < Suc i \<Longrightarrow> polled e cfg k = Some err' \<Longrightarrow> k = i \<and> err' = err"
      using clean Some by (metis less_Suc_eq option.distinct(1) option.inject)
    with ms app lt' len show ?thesis
      by (auto simp: loop_inv_def)
  qed
qed

lemma loop_inv_completed:
  assumes inv: "loop_inv e cfg s" and pc: "pc s = AtLoop i"
    and ge: "\<not> i < length (ListenOn (config s))"
  shows "loop_inv e cfg (main_step e s)"
proof -
  from inv pc have cfg: "config s = cfg" and len: "length (started s) = i"
    and le: "length (started s) \<le> length (ListenOn cfg)"
    and pre: "started s = take (length (started s)) (ListenOn cfg)"
    by (auto simp: loop_inv_def)
  from pc have alive: "alive s" by simp
  from cfg ge len le have full: "length (started s) = length (ListenOn cfg)" by simp
  have clean: "\<And>k. k < length (started s) \<Longrightarrow> polled e cfg k = None"
    using loop_inv_alive_clean [OF inv alive] by simp
  have "main_step e s = (emit (Logf InfoLevel ''Startup completed in %v'' [AElapsed]) s)\<lparr>pc := AtWait\<rparr>"
    using pc ge by (simp add: main_step_def)
  with cfg full pre clean show ?thesis
    by (simp add: loop_inv_def)
qed

lemma loop_inv_wait:
  assumes inv: "loop_inv e cfg s" and pc: "pc s = AtWait"
  shows "loop_inv e cfg (main_step e s)"
proof -
  from pc have alive: "alive s" by simp
  have clean: "\<And>k. k < length (started s) \<Longrightarrow> polled e cfg k = None"
    using loop_inv_alive_clean [OF inv alive] by simp
  from inv pc have "config s = cfg" and "length (started s) = length (ListenOn cfg)"
    and "started s = take (length (started s)) (ListenOn cfg)"
    by (auto simp: loop_inv_def)
  with pc clean show ?thesis
    by (simp add: loop_inv_def main_step_def)
qed

lemma loop_inv_step:
  assumes env: "envconfigProcess e = Inr cfg" and inv: "loop_inv e cfg s"
  shows "loop_inv e cfg (step e ev s)"
proof (cases "alive s")
  case False
  with inv show ?thesis by (simp add: step_dead)
next
  case True
  have clean: "\<And>k. k < length (started s) \<Longrightarrow> polled e cfg k = None"
    using loop_inv_alive_clean [OF inv True] by simp
  show ?thesis
  proof (cases ev)
    case Main
    show ?thesis
    proof (cases "pc s")
      case AtStartup
      with True Main env inv show ?thesis
        by (simp add: step_def main_step_def loop_inv_startup)
    next
      case (AtLoop i)
      with True Main inv show ?thesis
        using loop_inv_attempt [of e cfg s i] loop_inv_completed [of e cfg s i]
        by (cases "i < length (ListenOn (config s))") (simp_all add: step_def)
    next
      case AtWait
      with True Main inv show ?thesis by (simp add: step_def loop_inv_wait)
    next
      case (Exited c)
      with True show ?thesis by simp
    next
      case (Panicked p)
      with True show ?thesis by simp
    qed
  next
    case (Deliver i err)
    have "pc (step e ev s) = pc s" "started (step e ev s) = started s"
      "config (step e ev s) = config s"
      using Deliver by (simp_all add: step_def)
    with inv True show ?thesis by (rule loop_inv_frame)
  next
    case Signal
    have "pc (step e ev s) = pc s" "started (step e ev s) = started s"
      "config (step e ev s) = config s"
      using Signal by (simp_all add: step_def)
    with inv True show ?thesis by (rule loop_inv_frame)
  qed
qed

lemma loop_inv_run:
  "envconfigProcess e = Inr cfg \<Longrightarrow> loop_inv e cfg s \<Longrightarrow> loop_inv e cfg (run e sched s)"
  by (induction sched arbitrary: s) (simp_all add: loop_inv_step)

lemma step_started_mono: "length (started s) \<le> length (started (step e ev s))"
proof (cases ev)
  case Main
  show ?thesis
  proof (cases "pc s")
    case (AtLoop i)
    with Main show ?thesis
      by (simp add: step_def main_step_def exitOnErr_def Let_def split: option.splits)
  qed (simp_all add: Main step_def main_step_def)
qed (simp_all add: step_def)

lemma run_started_mono: "length (started s) \<le> length (started (run e sched s))"
proof (induction sched arbitrary: s)
  case Nil
  show ?case by simp
next
  case (Cons ev evs)
  have "length (started s) \<le> length (started (step e ev s))"
    by (rule step_started_mono)
  also have "\<dots> \<le> length (started (run e evs (step e ev s)))"
    by (rule Cons.IH)
  finally show ?case by simp
qed

lemma loop_progress:
  assumes clean: "\<forall>k<length (ListenOn cfg). polled e cfg k = None"
  shows "pc s = AtLoop i \<Longrightarrow> config s = cfg \<Longrightarrow> length (started s) = i \<Longrightarrow>
    length (ListenOn cfg) \<le> i + count_list sched Main \<Longrightarrow>
    length (ListenOn cfg) \<le> length (started (run e sched s))"
proof (induction sched arbitrary: s i)
  case Nil
  then show ?case by simp
next
  case (Cons ev evs)
  show ?case
  proof (cases "length (ListenOn cfg) \<le> i")
    case True
    with Cons.prems(3) run_started_mono [of s e "ev # evs"] show ?thesis by simp
  next
    case False
    then have lt: "i < length (ListenOn cfg)" by simp
    with clean have poll: "polled e cfg i = None" by simp
    show ?thesis
    proof (cases ev)
      case Main
      let ?t = "step e Main s"
      from Cons.prems(1,2,3) lt poll
      have "pc ?t = AtLoop (Suc i)" "config ?t = cfg" "length (started ?t) = Suc i"
        by (simp_all add: step_def main_step_def exitOnErr_def polled_def)
      moreover from Cons.prems(4) Main
      have "length (ListenOn cfg) \<le> Suc i + count_list evs Main" by simp
      ultimately have "length (ListenOn cfg) \<le> length (started (run e evs ?t))"
        by (rule Cons.IH)
      with Main show ?thesis by simp
    next
      case (Deliver j err)
      let ?t = "step e (Deliver j err) s"
      from Cons.prems(1,2,3)
      have "pc ?t = AtLoop i" "config ?t = cfg" "length (started ?t) = i"
        by (simp_all add: step_def)
      moreover from Cons.prems(4) Deliver
      have "length (ListenOn cfg) \<le> i + count_list evs Main" by simp
      ultimately have "length (ListenOn cfg) \<le> length (started (run e evs ?t))"
        by (rule Cons.IH)
      with Deliver show ?thesis by simp
    next
      case Signal
      let ?t = "step e Signal s"
      from Cons.prems(1,2,3)
      have "pc ?t = AtLoop i" "config ?t = cfg" "length (started ?t) = i"
        by (simp_all add: step_def)
      moreover from Cons.prems(4) Signal
      have "length (ListenOn cfg) \<le> i + count_list evs Main" by simp
      ultimately have "length (ListenOn cfg) \<le> length (started (run e evs ?t))"
        by (rule Cons.IH)
      with Signal show ?thesis by simp
    qed
  qed
qed

lemma startup_progress:
  assumes clean: "\<forall>k<length (ListenOn cfg). polled e cfg k = None" and boots: "boots e cfg"
  shows "pc s = AtStartup \<Longrightarrow> started s = [] \<Longrightarrow>
    length (ListenOn cfg) + 1 \<le> count_list sched Main \<Longrightarrow>
    length (ListenOn cfg) \<le> length (started (run e sched s))"
proof (induction sched arbitrary: s)
  case Nil
  then show ?case by simp
next
  case (Cons ev evs)
  show ?case
  proof (cases ev)
    case Main
    let ?t = "step e Main s"
    from Cons.prems(1) have t: "?t = startup e s" by (simp add: step_def main_step_def)
    from boots have "pc ?t = AtLoop 0" "config ?t = cfg"
      unfolding t by (simp_all add: startup_boots)
    moreover from Cons.prems(2) have "length (started ?t) = 0"
      unfolding t by simp
    moreover from Cons.prems(3) Main
    have "length (ListenOn cfg) \<le> 0 + count_list evs Main" by simp
    ultimately have "length (ListenOn cfg) \<le> length (started (run e evs ?t))"
      by (rule loop_progress [OF clean])
    with Main show ?thesis by simp
  next
    case (Deliver j err)
    let ?t = "step e (Deliver j err) s"
    from Cons.prems(1,2) have "pc ?t = AtStartup" "started ?t = []"
      by (simp_all add: step_def)
    moreover from Cons.prems(3) Deliver
    have "length (ListenOn cfg) + 1 \<le> count_list evs Main" by simp
    ultimately have "length (ListenOn cfg) \<le> length (started (run e evs ?t))"
      by (rule Cons.IH)
    with Deliver show ?thesis by simp
  next
    case Signal
    let ?t = "step e Signal s"
    from Cons.prems(1,2) have "pc ?t = AtStartup" "started ?t = []"
      by (simp_all add: step_def)
    moreover from Cons.prems(3) Signal
    have "length (ListenOn cfg) + 1 \<le> count_list evs Main" by simp
    ultimately have "length (ListenOn cfg) \<le> length (started (run e evs ?t))"
      by (rule Cons.IH)
    with Signal show ?thesis by simp
  qed
qed

subsection \<open>The goroutines of \<open>exitOnErr\<close>\<close>




subsection \<open>Independence of the resolver\<close>

lemma agree_refl: "agree s s"
  by (simp add: agree_def)

lemma agree_alive: "agree s t \<Longrightarrow> alive s = alive t"
  by (simp add: agree_def)

lemma agree_startup:
  assumes ag: "agree s t"
  shows "agree (startup e s) (startup (e\<lparr>interfaceAddrs := a, getPublicURL := g\<rparr>) t)"
proof -
  note defs = agree_def startup_def getPublishableURL_def cancel_closes Let_def
  show ?thesis
  proof (cases "envconfigUsage e")
    case (Some err)
    with ag show ?thesis by (simp add: defs split: option.splits)
  next
    case None
    note usage = None
    show ?thesis
    proof (cases "envconfigProcess e")
      case (Inl err)
      with usage ag show ?thesis by (simp add: defs split: option.splits)
    next
      case (Inr cfg)
      note process = Inr
      show ?thesis
      proof (cases "parseLevel e (LogLevel cfg)")
        case (Inl err)
        with usage process ag show ?thesis by (simp add: defs split: option.splits)
      next
        case (Inr l)
        note parse = Inr
        show ?thesis
        proof (cases "newX509Source e")
          case (Inl err)
          with usage process parse ag show ?thesis by (simp add: defs split: option.splits)
        next
          case (Inr source)
          note src = Inr
          show ?thesis
          proof (cases "GetX509SVID source")
            case (Inl err)
            with usage process parse src ag show ?thesis
              by (simp add: defs split: option.splits)
          next
            case (Inr svid)
            note id = Inr
            show ?thesis
            proof (cases "defaultURL (ListenOn cfg)")
              case (Inl p)
              with usage process parse src id ag show ?thesis
                by (simp add: defs split: option.splits)
            next
              case (Inr i)
              with usage process parse src id ag show ?thesis
                by (cases "interfaceAddrs e"; cases a) (simp_all add: defs split: option.splits)
            qed
          qed
        qed
      qed
    qed
  qed
qed

lemma agree_main_step:
  assumes ag: "agree s t"
  shows "agree (main_step e s) (main_step (e\<lparr>interfaceAddrs := a, getPublicURL := g\<rparr>) t)"
proof (cases "pc s")
  case AtStartup
  with ag have "pc t = AtStartup" by (simp add: agree_def)
  with AtStartup ag show ?thesis
    by (simp add: main_step_def agree_startup)
next
  case (AtLoop i)
  with ag have "pc t = AtLoop i" by (simp add: agree_def)
  with AtLoop ag show ?thesis
    by (simp add: main_step_def agree_def exitOnErr_def Let_def split: option.splits)
next
  case AtWait
  with ag have "pc t = AtWait" by (simp add: agree_def)
  with AtWait ag show ?thesis
    by (simp add: main_step_def agree_def cancel_closes)
next
  case (Exited c)
  with ag have "pc t = Exited c" by (simp add: agree_def)
  with Exited ag show ?thesis by (simp add: main_step_def)
next
  case (Panicked p)
  with ag have "pc t = Panicked p" by (simp add: agree_def)
  with Panicked ag show ?thesis by (simp add: main_step_def)
qed

lemma agree_step:
  assumes ag: "agree s t"
  shows "agree (step e ev s) (step (e\<lparr>interfaceAddrs := a, getPublicURL := g\<rparr>) ev t)"
proof (cases "alive s")
  case False
  with ag agree_alive [OF ag] show ?thesis by (simp add: step_dead)
next
  case True
  with agree_alive [OF ag] have live: "alive t" by simp
  show ?thesis
  proof (cases ev)
    case Main
    with True live ag show ?thesis
      by (simp add: step_def agree_main_step)
  next
    case (Deliver i err)
    with True live ag show ?thesis
      by (simp add: step_def agree_def)
  next
    case Signal
    with True live ag show ?thesis
      by (simp add: step_def agree_def cancel_closes)
  qed
qed

lemma agree_run:
  "agree s t \<Longrightarrow> agree (run e sched s) (run (e\<lparr>interfaceAddrs := a, getPublicURL := g\<rparr>) sched t)"
  by (induction sched arbitrary: s t) (simp_all add: agree_step)

subsection \<open>Failure of the identity\<close>

lemma startup_no_identity:
  assumes "newX509Source e = Inl err \<or>
           (\<exists>source. newX509Source e = Inr source \<and> GetX509SVID source = Inl err)"
  shows "pc (startup e s) = Exited 1"
  using assms
  by (auto simp: startup_def Let_def split: option.splits sum.splits)

lemma startup_no_identity_log:
  assumes "newX509Source e = Inl err \<or>
           (\<exists>source. newX509Source e = Inr source \<and> GetX509SVID source = Inl err)"
    and "envconfigUsage e = None" and "envconfigProcess e = Inr cfg"
    and "isRight (parseLevel e (LogLevel cfg))"
  shows "last (logs (startup e s)) =
           Logf FatalLevel ''error getting x509 source: %+v'' [AErr (Some err)] \<or>
         last (logs (startup e s)) =
           Logf FatalLevel ''error getting x509 svid: %+v'' [AErr (Some err)]"
  using assms
  by (auto simp: startup_def Let_def split: option.splits sum.splits)

lemma before_startup:
  "pc s = AtStartup \<Longrightarrow> Main \<notin> set sched \<Longrightarrow>
   pc (run e sched s) = AtStartup \<and> started (run e sched s) = started s"
proof (induction sched arbitrary: s)
  case Nil
  then show ?case by simp
next
  case (Cons ev evs)
  from Cons.prems have "pc (step e ev s) = AtStartup" "started (step e ev s) = started s"
    by (cases ev; simp add: step_def)+
  with Cons.IH [of "step e ev s"] Cons.prems show ?case by simp
qed

lemma run_first_Main:
  "pc s = AtStartup \<Longrightarrow> Main \<in> set sched \<Longrightarrow>
   \<exists>t later. pc t = AtStartup \<and> started t = started s \<and>
     run e sched s = run e later (startup e t)"
proof (induction sched arbitrary: s)
  case Nil
  then show ?case by simp
next
  case (Cons ev evs)
  show ?case
  proof (cases ev)
    case Main
    with Cons.prems have "run e (ev # evs) s = run e evs (startup e s)"
      by (simp add: step_def main_step_def)
    with Cons.prems show ?thesis by blast
  next
    case (Deliver i err)
    with Cons.prems have "pc (step e ev s) = AtStartup" "started (step e ev s) = started s"
      "Main \<in> set evs"
      by (simp_all add: step_def)
    with Cons.IH [of "step e ev s"] show ?thesis by auto
  next
    case Signal
    with Cons.prems have "pc (step e ev s) = AtStartup" "started (step e ev s) = started s"
      "Main \<in> set evs"
      by (simp_all add: step_def)
    with Cons.IH [of "step e ev s"] show ?thesis by auto
  qed
qed

section \<open>Claims\<close>

text \<open>
  C1, as amended. The listener loop requests the listeners in list order. It stops at
  the first listener whose error is already on its channel when \<open>exitOnErr\<close> polls it:
  that listener is the last one attempted. Failures that arrive later, in the
  background, and cancellation do not stop the loop: when the startup reaches the loop
  and no listener has an error ready at its poll, all N listeners are attempted once the
  main goroutine has taken its N + 1 steps, whatever is interleaved with them.
\<close>

theorem listener_start_attempts:
  assumes env: "envconfigProcess e = Inr cfg"
  shows "started (run e sched init) =
           take (length (started (run e sched init))) (ListenOn cfg) \<and>
         (\<forall>k err. k < length (ListenOn cfg) \<and>
              listenAndServe e k (ListenOn cfg ! k) = Some err \<longrightarrow>
            length (started (run e sched init)) \<le> Suc k) \<and>
         (boots e cfg \<and>
          (\<forall>k<length (ListenOn cfg). listenAndServe e k (ListenOn cfg ! k) = None) \<and>
          length (ListenOn cfg) + 1 \<le> count_list sched Main \<longrightarrow>
            started (run e sched init) = ListenOn cfg)"
proof (intro conjI allI impI)
  let ?s = "run e sched init"
  have inv: "loop_inv e cfg ?s"
    using env loop_inv_init by (rule loop_inv_run)
  then show prefix: "started ?s = take (length (started ?s)) (ListenOn cfg)"
    by (simp add: loop_inv_def)
  {
    fix k err
    assume "k < length (ListenOn cfg) \<and> listenAndServe e k (ListenOn cfg ! k) = Some err"
    then have poll: "polled e cfg k = Some err" by (simp add: polled_def)
    show "length (started ?s) \<le> Suc k"
    proof (rule ccontr)
      assume "\<not> length (started ?s) \<le> Suc k"
      then have "k < length (started ?s)" and "Suc k \<noteq> length (started ?s)" by simp_all
      with inv poll show False by (auto simp: loop_inv_def)
    qed
  }
  {
    assume h: "boots e cfg \<and>
      (\<forall>k<length (ListenOn cfg). listenAndServe e k (ListenOn cfg ! k) = None) \<and>
      length (ListenOn cfg) + 1 \<le> count_list sched Main"
    then have clean: "\<forall>k<length (ListenOn cfg). polled e cfg k = None"
      by (simp add: polled_def)
    have "length (ListenOn cfg) \<le> length (started ?s)"
      using clean h by (intro startup_progress) (simp_all add: init_def)
    with prefix show "started ?s = ListenOn cfg"
      by (metis take_all)
  }
qed

text \<open>
  With three listen addresses of which the first fails to bind, the only attempt is the
  first one, and the process has ended with status 1.
\<close>

theorem listener_start_attempts_counterexample:
  "envconfigProcess env3 = Inr (sampleConfig [unixURL, tcpURL, tcpURL2]) \<and>
   length (ListenOn (sampleConfig [unixURL, tcpURL, tcpURL2])) = 3 \<and>
   started (run env3 [Main, Main, Main, Main, Main] init) = [unixURL] \<and>
   pc (run env3 [Main, Main, Main, Main, Main] init) = Exited 1"
proof -
  have "envconfigProcess env3 = Inr (sampleConfig [unixURL, tcpURL, tcpURL2])"
    by (simp add: env3_def sampleEnv_def)
  moreover have "length (ListenOn (sampleConfig [unixURL, tcpURL, tcpURL2])) = 3"
    by (simp add: sampleConfig_def)
  moreover have "started (run env3 [Main, Main, Main, Main, Main] init) = [unixURL]"
    by code_simp
  moreover have "pc (run env3 [Main, Main, Main, Main, Main] init) = Exited 1"
    by code_simp
  ultimately show ?thesis by simp
qed

theorem listener_start_attempts_witness:
  "envconfigProcess env2 = Inr (sampleConfig [unixURL, tcpURL]) \<and>
   boots env2 (sampleConfig [unixURL, tcpURL]) \<and>
   listenAndServe env2 0 unixURL = None \<and> listenAndServe env2 1 tcpURL = None \<and>
   count_list [Main, Main, Deliver 0 (Some ''serve''), Signal, Main] Main = 3 \<and>
   started (run env2 [Main, Main, Deliver 0 (Some ''serve''), Signal, Main] init)
     = [unixURL, tcpURL] \<and>
   envconfigProcess env3 = Inr (sampleConfig [unixURL, tcpURL, tcpURL2]) \<and>
   listenAndServe env3 0 unixURL = Some (Some ''bind: address already in use'') \<and>
   length (started (run env3 [Main, Main, Main, Main, Main] init)) \<le> 1"
proof -
  let ?cfg = "sampleConfig [unixURL, tcpURL]"
  let ?sched = "[Main, Main, Deliver 0 (Some ''serve''), Signal, Main]"
  have env: "envconfigProcess env2 = Inr ?cfg"
    by (simp add: env2_def sampleEnv_def)
  have b: "boots env2 ?cfg"
    by (simp add: boots_def env2_def sampleEnv_def sampleConfig_def sampleSource_def)
  have polls: "listenAndServe env2 0 unixURL = None" "listenAndServe env2 1 tcpURL = None"
    by (simp_all add: env2_def sampleEnv_def)
  have clean: "\<forall>k<length (ListenOn ?cfg). listenAndServe env2 k (ListenOn ?cfg ! k) = None"
    by (simp add: env2_def sampleEnv_def)
  have cnt: "count_list ?sched Main = 3" by simp
  have len: "length (ListenOn ?cfg) + 1 \<le> count_list ?sched Main"
    by (simp add: sampleConfig_def)
  from listener_start_attempts [OF env, of ?sched] b clean len
  have "started (run env2 ?sched init) = ListenOn ?cfg" by blast
  then have full: "started (run env2 ?sched init) = [unixURL, tcpURL]"
    by (simp add: sampleConfig_def)
  let ?cfg3 = "sampleConfig [unixURL, tcpURL, tcpURL2]"
  have env3: "envconfigProcess env3 = Inr ?cfg3"
    by (simp add: env3_def sampleEnv_def)
  have poll3: "listenAndServe env3 0 unixURL = Some (Some ''bind: address already in use'')"
    by (simp add: env3_def sampleEnv_def)
  then have "0 < length (ListenOn ?cfg3) \<and>
      listenAndServe env3 0 (ListenOn ?cfg3 ! 0) = Some (Some ''bind: address already in use'')"
    by (simp add: sampleConfig_def)
  with listener_start_attempts [OF env3, of "[Main, Main, Main, Main, Main]"]
  have "length (started (run env3 [Main, Main, Main, Main, Main] init)) \<le> Suc 0" by blast
  with env b polls cnt full env3 poll3 show ?thesis by simp
qed

text \<open>
  C2. For every non-empty list of listen URLs with at least one entry of scheme
  \<open>tcp\<close>, \<open>defaultURL\<close> returns the first such entry in list order (every entry before
  it has another scheme), so never an entry that is not network-routable; for every
  non-empty list without such an entry it returns the first entry of the list.
\<close>

theorem defaultURL_representative:
  "listenOn \<noteq> [] \<Longrightarrow>
     ((\<exists>u\<in>set listenOn. Scheme u = ''tcp'') \<longrightarrow>
        (\<exists>i. defaultURL listenOn = Inr i \<and> i < length listenOn \<and>
             Scheme (listenOn ! i) = ''tcp'' \<and>
             (\<forall>j<i. Scheme (listenOn ! j) \<noteq> ''tcp''))) \<and>
     ((\<forall>u\<in>set listenOn. Scheme u \<noteq> ''tcp'') \<longrightarrow> defaultURL listenOn = Inr 0)"
proof (intro conjI impI)
  assume "\<exists>u\<in>set listenOn. Scheme u = ''tcp''"
  then obtain k where k: "scan listenOn 0 = Some k"
    using scan_has_tcp by blast
  then have "defaultURL listenOn = Inr k"
    by (simp add: defaultURL_def)
  moreover from k have "k < length listenOn" and "Scheme (listenOn ! k) = ''tcp''"
    by (simp_all add: scan_Some_bounds scan_Some_tcp)
  moreover from k have "\<forall>j<k. Scheme (listenOn ! j) \<noteq> ''tcp''"
    using scan_Some_first [of listenOn 0 k] by simp
  ultimately show "\<exists>i. defaultURL listenOn = Inr i \<and> i < length listenOn \<and>
      Scheme (listenOn ! i) = ''tcp'' \<and> (\<forall>j<i. Scheme (listenOn ! j) \<noteq> ''tcp'')"
    by blast
next
  assume nonempty: "listenOn \<noteq> []" and "\<forall>u\<in>set listenOn. Scheme u \<noteq> ''tcp''"
  then have "scan listenOn 0 = None"
    by (simp add: scan_no_tcp)
  with nonempty show "defaultURL listenOn = Inr 0"
    by (simp add: defaultURL_def)
qed

theorem defaultURL_representative_witness:
  "[unixURL, tcpURL, tcpURL2] \<noteq> [] \<and>
   (\<exists>u\<in>set [unixURL, tcpURL, tcpURL2]. Scheme u = ''tcp'') \<and>
   defaultURL [unixURL, tcpURL, tcpURL2] = Inr 1 \<and>
   [unixURL, tcpURL, tcpURL2] ! 1 = tcpURL \<and>
   Scheme ([unixURL, tcpURL, tcpURL2] ! 0) \<noteq> ''tcp'' \<and>
   list_all (\<lambda>u. Scheme u \<noteq> ''tcp'') [unixURL] \<and>
   defaultURL [unixURL] = Inr 0"
  using defaultURL_representative [of "[unixURL, tcpURL, tcpURL2]"]
    defaultURL_representative [of "[unixURL]"]
  by (simp add: defaultURL_def scan.simps unixURL_def tcpURL_def tcpURL2_def mkURL_def)




text \<open>
  C4, as amended. If the error of a listener is already on its channel when
  \<open>exitOnErr\<close> polls it, right after the start was requested, the failure is handled
  there and then: the error is logged with \<open>Fatal\<close>, the process ends with status 1,
  that listener is the last one attempted, and nothing happens afterwards. An error
  that arrives after the poll is handled by the goroutine: it is logged with \<open>Error\<close>
  and the context is cancelled, while the main goroutine stays where it is.
\<close>

theorem start_failure_fatal:
  assumes env: "envconfigProcess e = Inr cfg"
  shows "(k < length (started (run e sched init)) \<and>
          listenAndServe e k (ListenOn cfg ! k) = Some err \<longrightarrow>
            pc (run e sched init) = Exited 1 \<and>
            started (run e sched init) = take (Suc k) (ListenOn cfg) \<and>
            last (logs (run e sched init)) = Log FatalLevel [AErr err] \<and>
            run e later (run e sched init) = run e sched init) \<and>
         (alive s \<and> i \<in> set (watching s) \<longrightarrow>
            pc (step e (Deliver i err') s) = pc s \<and>
            started (step e (Deliver i err') s) = started s \<and>
            logs (step e (Deliver i err') s) = logs s @ [Log ErrorLevel [AErr err']] \<and>
            ctxDone (step e (Deliver i err') s))"
proof (intro conjI impI)
  let ?s = "run e sched init"
  assume h: "k < length (started ?s) \<and> listenAndServe e k (ListenOn cfg ! k) = Some err"
  have inv: "loop_inv e cfg ?s"
    using env loop_inv_init by (rule loop_inv_run)
  from h have poll: "polled e cfg k = Some err" by (simp add: polled_def)
  from inv h poll have len: "Suc k = length (started ?s)" and pc: "pc ?s = Exited 1"
    and lg: "last (logs ?s) = Log FatalLevel [AErr err]"
    by (auto simp: loop_inv_def)
  from pc show "pc ?s = Exited 1" .
  from inv len show "started ?s = take (Suc k) (ListenOn cfg)"
    by (simp add: loop_inv_def)
  from lg show "last (logs ?s) = Log FatalLevel [AErr err]" .
  from pc show "run e later ?s = ?s" by (simp add: run_dead)
next
  assume h: "alive s \<and> i \<in> set (watching s)"
  then have st: "step e (Deliver i err') s = watcher i err' s"
    by (simp add: step_def)
  show "pc (step e (Deliver i err') s) = pc s" unfolding st by simp
  show "started (step e (Deliver i err') s) = started s" unfolding st by simp
  show "logs (step e (Deliver i err') s) = logs s @ [Log ErrorLevel [AErr err']]"
    unfolding st by simp
  show "ctxDone (step e (Deliver i err') s)" unfolding st by simp
qed

text \<open>
  The first of two listeners fails after its poll and before the second one is started:
  the second one is started all the same, the startup is reported as completed, and no
  entry is logged with \<open>Fatal\<close>.
\<close>

theorem start_failure_fatal_counterexample:
  "started (run env2 [Main, Main, Deliver 0 (Some ''serve'')] init) = [unixURL] \<and>
   pc (run env2 [Main, Main, Deliver 0 (Some ''serve'')] init) = AtLoop 1 \<and>
   started (run env2 [Main, Main, Deliver 0 (Some ''serve''), Main, Main] init)
     = [unixURL, tcpURL] \<and>
   pc (run env2 [Main, Main, Deliver 0 (Some ''serve''), Main, Main] init) = AtWait \<and>
   map level_of (logs (run env2 [Main, Main, Deliver 0 (Some ''serve''), Main, Main] init))
     = [InfoLevel, InfoLevel, InfoLevel, ErrorLevel, InfoLevel]"
proof -
  have "started (run env2 [Main, Main, Deliver 0 (Some ''serve'')] init) = [unixURL]"
    by code_simp
  moreover have "pc (run env2 [Main, Main, Deliver 0 (Some ''serve'')] init) = AtLoop 1"
    by code_simp
  moreover have "started (run env2 [Main, Main, Deliver 0 (Some ''serve''), Main, Main] init)
     = [unixURL, tcpURL]"
    by code_simp
  moreover have "pc (run env2 [Main, Main, Deliver 0 (Some ''serve''), Main, Main] init) = AtWait"
    by code_simp
  moreover have "map level_of
      (logs (run env2 [Main, Main, Deliver 0 (Some ''serve''), Main, Main] init))
     = [InfoLevel, InfoLevel, InfoLevel, ErrorLevel, InfoLevel]"
    by code_simp
  ultimately show ?thesis by simp
qed

theorem start_failure_fatal_witness:
  "envconfigProcess env4 = Inr (sampleConfig [unixURL, tcpURL, tcpURL2]) \<and>
   1 < length (started (run env4 [Main, Main, Main] init)) \<and>
   listenAndServe env4 1 (ListenOn (sampleConfig [unixURL, tcpURL, tcpURL2]) ! 1)
     = Some (Some ''bind: address already in use'') \<and>
   pc (run env4 [Main, Main, Main] init) = Exited 1 \<and>
   started (run env4 [Main, Main, Main] init) = [unixURL, tcpURL] \<and>
   last (logs (run env4 [Main, Main, Main] init))
     = Log FatalLevel [AErr (Some ''bind: address already in use'')] \<and>
   run env4 [Main, Signal] (run env4 [Main, Main, Main] init)
     = run env4 [Main, Main, Main] init \<and>
   alive (run env4 [Main, Main] init) \<and> 0 \<in> set (watching (run env4 [Main, Main] init)) \<and>
   pc (step env4 (Deliver 0 (Some ''serve'')) (run env4 [Main, Main] init)) = AtLoop 1 \<and>
   ctxDone (step env4 (Deliver 0 (Some ''serve'')) (run env4 [Main, Main] init))"
proof -
  let ?cfg = "sampleConfig [unixURL, tcpURL, tcpURL2]"
  let ?err = "Some ''bind: address already in use''"
  let ?s3 = "run env4 [Main, Main, Main] init"
  let ?s2 = "run env4 [Main, Main] init"
  have env: "envconfigProcess env4 = Inr ?cfg"
    by (simp add: env4_def sampleEnv_def)
  have att: "1 < length (started ?s3)" by code_simp
  have poll: "listenAndServe env4 1 (ListenOn ?cfg ! 1) = Some ?err"
    by (simp add: env4_def sampleEnv_def)
  have live: "alive ?s2" by code_simp
  have w: "0 \<in> set (watching ?s2)" by code_simp
  have pc2: "pc ?s2 = AtLoop 1" by code_simp
  have take2: "take (Suc 1) (ListenOn ?cfg) = [unixURL, tcpURL]"
    by (simp add: sampleConfig_def)
  from start_failure_fatal [OF env, of 1 "[Main, Main, Main]" ?err "[Main, Signal]" ?s2 0
      "Some ''serve''"] att poll live w
  have "pc ?s3 = Exited 1 \<and> started ?s3 = take (Suc 1) (ListenOn ?cfg) \<and>
      last (logs ?s3) = Log FatalLevel [AErr ?err] \<and>
      run env4 [Main, Signal] ?s3 = ?s3 \<and>
      pc (step env4 (Deliver 0 (Some ''serve'')) ?s2) = pc ?s2 \<and>
      ctxDone (step env4 (Deliver 0 (Some ''serve'')) ?s2)"
    by blast
  with env att poll live w pc2 take2 show ?thesis by simp
qed

text \<open>
  C5. If the enumeration of the network interfaces fails, \<open>getPublishableURL\<close> returns
  the representative chosen by \<open>defaultURL\<close> as it stands in the list and logs the
  error with \<open>Warn\<close>; the startup goes on to the listener loop with that URL as the
  published one, and nothing is logged above the warning level.
\<close>

theorem enumeration_failure_warns:
  assumes fail: "interfaceAddrs e = Inl err"
  shows "(listenOn \<noteq> [] \<longrightarrow>
           (\<exists>i. defaultURL listenOn = Inr i \<and>
                getPublishableURL e listenOn = Inr ([Log WarnLevel [AStr err]], listenOn ! i))) \<and>
         (boots e cfg \<longrightarrow>
           pc (run e [Main] init) = AtLoop 0 \<and>
           (\<exists>i. defaultURL (ListenOn cfg) = Inr i \<and>
                listenURL (run e [Main] init) = Some (ListenOn cfg ! i)) \<and>
           Log WarnLevel [AStr err] \<in> set (logs (run e [Main] init)) \<and>
           (\<forall>en\<in>set (logs (run e [Main] init)). level_of en = InfoLevel \<or> level_of en = WarnLevel))"
proof (intro conjI impI)
  assume "listenOn \<noteq> []"
  then obtain i where "defaultURL listenOn = Inr i"
    using defaultURL_nonempty by blast
  with fail show "\<exists>i. defaultURL listenOn = Inr i \<and>
      getPublishableURL e listenOn = Inr ([Log WarnLevel [AStr err]], listenOn ! i)"
    by (simp add: getPublishableURL_def)
next
  assume b: "boots e cfg"
  then obtain i where i: "defaultURL (ListenOn cfg) = Inr i"
    using defaultURL_nonempty by (auto simp: boots_def)
  with fail have g: "getPublishableURL e (ListenOn cfg) =
      Inr ([Log WarnLevel [AStr err]], ListenOn cfg ! i)"
    by (simp add: getPublishableURL_def)
  have r: "run e [Main] init = startup e init"
    by (simp add: step_def main_step_def init_def)
  from b show "pc (run e [Main] init) = AtLoop 0"
    unfolding r by (simp add: startup_boots)
  from b g i show "\<exists>i. defaultURL (ListenOn cfg) = Inr i \<and>
      listenURL (run e [Main] init) = Some (ListenOn cfg ! i)"
    unfolding r
    by (auto simp: startup_def boots_def Let_def split: option.splits sum.splits)
  from b g show "Log WarnLevel [AStr err] \<in> set (logs (run e [Main] init))"
    unfolding r
    by (auto simp: startup_def boots_def Let_def split: option.splits sum.splits)
  from b g show "\<forall>en\<in>set (logs (run e [Main] init)). level_of en = InfoLevel \<or> level_of en = WarnLevel"
    unfolding r
    by (auto simp: startup_def boots_def init_def Let_def split: option.splits sum.splits)
qed

theorem enumeration_failure_warns_witness:
  "interfaceAddrs envNoIfaces = Inl ''route ip+net: netlinkrib: too many open files'' \<and>
   [unixURL, tcpURL] \<noteq> [] \<and>
   boots envNoIfaces (sampleConfig [unixURL, tcpURL]) \<and>
   defaultURL [unixURL, tcpURL] = Inr 1 \<and>
   getPublishableURL envNoIfaces [unixURL, tcpURL] =
     Inr ([Log WarnLevel [AStr ''route ip+net: netlinkrib: too many open files'']], tcpURL) \<and>
   pc (run envNoIfaces [Main] init) = AtLoop 0 \<and>
   listenURL (run envNoIfaces [Main] init) = Some tcpURL \<and>
   Log WarnLevel [AStr ''route ip+net: netlinkrib: too many open files'']
     \<in> set (logs (run envNoIfaces [Main] init))"
proof -
  let ?err = "''route ip+net: netlinkrib: too many open files''"
  let ?cfg = "sampleConfig [unixURL, tcpURL]"
  have fail: "interfaceAddrs envNoIfaces = Inl ?err"
    by (simp add: envNoIfaces_def)
  have b: "boots envNoIfaces ?cfg"
    by (simp add: boots_def envNoIfaces_def env2_def sampleEnv_def sampleConfig_def
        sampleSource_def)
  have d: "defaultURL [unixURL, tcpURL] = Inr 1" by code_simp
  have l: "ListenOn ?cfg = [unixURL, tcpURL]" by (simp add: sampleConfig_def)
  have ne: "[unixURL, tcpURL] \<noteq> []" by simp
  from enumeration_failure_warns [OF fail, of "[unixURL, tcpURL]" ?cfg] ne b
  have "(\<exists>i. defaultURL [unixURL, tcpURL] = Inr i \<and>
          getPublishableURL envNoIfaces [unixURL, tcpURL] =
            Inr ([Log WarnLevel [AStr ?err]], [unixURL, tcpURL] ! i)) \<and>
        pc (run envNoIfaces [Main] init) = AtLoop 0 \<and>
        (\<exists>i. defaultURL (ListenOn ?cfg) = Inr i \<and>
          listenURL (run envNoIfaces [Main] init) = Some (ListenOn ?cfg ! i)) \<and>
        Log WarnLevel [AStr ?err] \<in> set (logs (run envNoIfaces [Main] init))"
    by blast
  with d l have "getPublishableURL envNoIfaces [unixURL, tcpURL] =
            Inr ([Log WarnLevel [AStr ?err]], tcpURL) \<and>
        pc (run envNoIfaces [Main] init) = AtLoop 0 \<and>
        listenURL (run envNoIfaces [Main] init) = Some tcpURL \<and>
        Log WarnLevel [AStr ?err] \<in> set (logs (run envNoIfaces [Main] init))"
    by simp
  with fail b d show ?thesis by simp
qed

text \<open>
  C6. The server-side and the client-side configuration both admit a peer exactly when
  it presents a certificate issued by an authority of the source's trust bundle, over
  TLS 1.2 or later: a peer without certificate is never admitted, and the SPIFFE ID of
  the certificate plays no part. Both present the SVID of the source, both use
  \<open>AuthorizeAny\<close>, both have \<open>MinVersion\<close> TLS 1.2, and these two are the
  credentials the startup hands on.
\<close>

theorem credentials_mutual_tls:
  "(admits (tlsServerConfig source) p \<longleftrightarrow>
      (\<exists>crt. presented p = Some crt \<and> issuer crt \<in> set (authorities source)) \<and>
      VersionTLS12 \<le> version p) \<and>
   (admits (tlsClientConfig source) p \<longleftrightarrow>
      (\<exists>crt. presented p = Some crt \<and> issuer crt \<in> set (authorities source)) \<and>
      VersionTLS12 \<le> version p) \<and>
   presents (tlsServerConfig source) = Some source \<and>
   presents (tlsClientConfig source) = Some source \<and>
   authorize (tlsServerConfig source) = AuthorizeAny \<and>
   authorize (tlsClientConfig source) = AuthorizeAny \<and>
   MinVersion (tlsServerConfig source) = VersionTLS12 \<and>
   MinVersion (tlsClientConfig source) = VersionTLS12 \<and>
   (boots e cfg \<and> newX509Source e = Inr source \<longrightarrow>
      creds (run e [Main] init) =
        Some \<lparr>serverTLS = tlsServerConfig source, dialTLS = tlsClientConfig source,
              tokenLifetime = MaxTokenLifetime cfg\<rparr>)"
proof (intro conjI impI)
  show "admits (tlsServerConfig source) p \<longleftrightarrow>
      (\<exists>crt. presented p = Some crt \<and> issuer crt \<in> set (authorities source)) \<and>
      VersionTLS12 \<le> version p"
    by (cases "presented p")
      (auto simp: admits_def tlsServerConfig_def MTLSServerConfig_def verifies_def)
  show "admits (tlsClientConfig source) p \<longleftrightarrow>
      (\<exists>crt. presented p = Some crt \<and> issuer crt \<in> set (authorities source)) \<and>
      VersionTLS12 \<le> version p"
    by (cases "presented p")
      (auto simp: admits_def tlsClientConfig_def MTLSClientConfig_def verifies_def)
  show "presents (tlsServerConfig source) = Some source"
    by (simp add: presents_def tlsServerConfig_def MTLSServerConfig_def)
  show "presents (tlsClientConfig source) = Some source"
    by (simp add: presents_def tlsClientConfig_def MTLSClientConfig_def)
  show "authorize (tlsServerConfig source) = AuthorizeAny"
    by (simp add: tlsServerConfig_def MTLSServerConfig_def)
  show "authorize (tlsClientConfig source) = AuthorizeAny"
    by (simp add: tlsClientConfig_def MTLSClientConfig_def)
  show "MinVersion (tlsServerConfig source) = VersionTLS12"
    by (simp add: tlsServerConfig_def)
  show "MinVersion (tlsClientConfig source) = VersionTLS12"
    by (simp add: tlsClientConfig_def)
next
  assume h: "boots e cfg \<and> newX509Source e = Inr source"
  have r: "run e [Main] init = startup e init"
    by (simp add: step_def main_step_def init_def)
  from h obtain i where "defaultURL (ListenOn cfg) = Inr i"
    using defaultURL_nonempty by (auto simp: boots_def)
  with h show "creds (run e [Main] init) =
        Some \<lparr>serverTLS = tlsServerConfig source, dialTLS = tlsClientConfig source,
              tokenLifetime = MaxTokenLifetime cfg\<rparr>"
    unfolding r
    by (auto simp: startup_def boots_def getPublishableURL_def Let_def
        split: option.splits sum.splits)
qed

theorem credentials_mutual_tls_witness:
  "boots env2 (sampleConfig [unixURL, tcpURL]) \<and> newX509Source env2 = Inr sampleSource \<and>
   creds (run env2 [Main] init) =
     Some \<lparr>serverTLS = tlsServerConfig sampleSource, dialTLS = tlsClientConfig sampleSource,
           tokenLifetime = 0\<rparr> \<and>
   \<not> admits (tlsServerConfig sampleSource) \<lparr>presented = None, version = VersionTLS13\<rparr> \<and>
   \<not> admits (tlsClientConfig sampleSource) \<lparr>presented = None, version = VersionTLS13\<rparr> \<and>
   admits (tlsServerConfig sampleSource)
     \<lparr>presented = Some \<lparr>subject = ''spiffe://example.org/anyone'', issuer = ''example.org''\<rparr>,
      version = VersionTLS12\<rparr> \<and>
   \<not> admits (tlsServerConfig sampleSource)
     \<lparr>presented = Some \<lparr>subject = ''spiffe://example.org/anyone'', issuer = ''example.org''\<rparr>,
      version = VersionTLS11\<rparr> \<and>
   \<not> admits (tlsClientConfig sampleSource)
     \<lparr>presented = Some \<lparr>subject = ''spiffe://other.org/x'', issuer = ''other.org''\<rparr>,
      version = VersionTLS13\<rparr>"
proof -
  let ?cfg = "sampleConfig [unixURL, tcpURL]"
  let ?crt = "\<lparr>subject = ''spiffe://example.org/anyone'', issuer = ''example.org''\<rparr>"
  let ?bad = "\<lparr>subject = ''spiffe://other.org/x'', issuer = ''other.org''\<rparr>"
  have b: "boots env2 ?cfg"
    by (simp add: boots_def env2_def sampleEnv_def sampleConfig_def sampleSource_def)
  have src: "newX509Source env2 = Inr sampleSource"
    by (simp add: env2_def sampleEnv_def)
  have life: "MaxTokenLifetime ?cfg = 0"
    by (simp add: sampleConfig_def zeroConfig_def)
  have v: "VersionTLS12 \<le> VersionTLS13" "VersionTLS12 \<le> VersionTLS12"
    "\<not> VersionTLS12 \<le> VersionTLS11"
    by (simp_all add: VersionTLS11_def VersionTLS12_def VersionTLS13_def)
  have auth: "authorities sampleSource = [''example.org'']"
    by (simp add: sampleSource_def)
  note t = credentials_mutual_tls [of sampleSource _ env2 ?cfg]
  from t [of "\<lparr>presented = None, version = VersionTLS13\<rparr>"] b src life
  have c: "creds (run env2 [Main] init) =
     Some \<lparr>serverTLS = tlsServerConfig sampleSource, dialTLS = tlsClientConfig sampleSource,
           tokenLifetime = 0\<rparr>"
    and a1: "\<not> admits (tlsServerConfig sampleSource) \<lparr>presented = None, version = VersionTLS13\<rparr>"
    and a2: "\<not> admits (tlsClientConfig sampleSource) \<lparr>presented = None, version = VersionTLS13\<rparr>"
    by simp_all
  from t [of "\<lparr>presented = Some ?crt, version = VersionTLS12\<rparr>"] v auth
  have a3: "admits (tlsServerConfig sampleSource) \<lparr>presented = Some ?crt, version = VersionTLS12\<rparr>"
    by simp
  from t [of "\<lparr>presented = Some ?crt, version = VersionTLS11\<rparr>"] v
  have a4: "\<not> admits (tlsServerConfig sampleSource)
      \<lparr>presented = Some ?crt, version = VersionTLS11\<rparr>"
    by simp
  from t [of "\<lparr>presented = Some ?bad, version = VersionTLS13\<rparr>"] auth
  have a5: "\<not> admits (tlsClientConfig sampleSource)
      \<lparr>presented = Some ?bad, version = VersionTLS13\<rparr>"
    by simp
  from b src c a1 a2 a3 a4 a5 show ?thesis by simp
qed

text \<open>
  C7, as amended. The addresses passed to \<open>ListenAndServe\<close> do not depend on the
  resolver: they are the same whatever \<open>net.InterfaceAddrs\<close> and \<open>GetPublicURL\<close>
  return. They are always a prefix of the configured list, unmodified and in order.
  They are the whole list once the loop has ended, which it has, for every resolver,
  when the startup reaches the loop, no listener has an error ready at its poll and the
  main goroutine has taken its N + 1 steps.
\<close>

theorem listeners_bind_configured_list:
  "started (run (e\<lparr>interfaceAddrs := a, getPublicURL := g\<rparr>) sched init) =
     started (run e sched init) \<and>
   (envconfigProcess e = Inr cfg \<longrightarrow>
      started (run e sched init) = take (length (started (run e sched init))) (ListenOn cfg) \<and>
      (pc (run e sched init) = AtWait \<or> pc (run e sched init) = Exited 0 \<longrightarrow>
         started (run e sched init) = ListenOn cfg) \<and>
      (boots e cfg \<and>
       (\<forall>k<length (ListenOn cfg). listenAndServe e k (ListenOn cfg ! k) = None) \<and>
       length (ListenOn cfg) + 1 \<le> count_list sched Main \<longrightarrow>
         started (run (e\<lparr>interfaceAddrs := a, getPublicURL := g\<rparr>) sched init) = ListenOn cfg))"
proof (intro conjI impI)
  have "agree (run e sched init) (run (e\<lparr>interfaceAddrs := a, getPublicURL := g\<rparr>) sched init)"
    using agree_refl by (rule agree_run)
  then show same: "started (run (e\<lparr>interfaceAddrs := a, getPublicURL := g\<rparr>) sched init) =
     started (run e sched init)"
    by (simp add: agree_def)
  {
    assume env: "envconfigProcess e = Inr cfg"
    have inv: "loop_inv e cfg (run e sched init)"
      using env loop_inv_init by (rule loop_inv_run)
    then show prefix: "started (run e sched init) =
        take (length (started (run e sched init))) (ListenOn cfg)"
      by (simp add: loop_inv_def)
    {
      assume "pc (run e sched init) = AtWait \<or> pc (run e sched init) = Exited 0"
      with inv have "length (started (run e sched init)) = length (ListenOn cfg)"
        by (auto simp: loop_inv_def)
      with prefix show "started (run e sched init) = ListenOn cfg"
        by (metis order_refl take_all)
    }
    {
      assume h: "boots e cfg \<and>
        (\<forall>k<length (ListenOn cfg). listenAndServe e k (ListenOn cfg ! k) = None) \<and>
        length (ListenOn cfg) + 1 \<le> count_list sched Main"
      then have clean: "\<forall>k<length (ListenOn cfg). polled e cfg k = None"
        by (simp add: polled_def)
      have "length (ListenOn cfg) \<le> length (started (run e sched init))"
        using clean h by (intro startup_progress) (simp_all add: init_def)
      with prefix have "started (run e sched init) = ListenOn cfg"
        by (metis take_all)
      with same show "started (run (e\<lparr>interfaceAddrs := a, getPublicURL := g\<rparr>) sched init)
          = ListenOn cfg"
        by simp
    }
  }
qed

text \<open>
  The second of three listeners fails at its poll: the addresses passed to
  \<open>ListenAndServe\<close> are the first two of the configured three.
\<close>

theorem listeners_bind_configured_list_counterexample:
  "boots env4 (sampleConfig [unixURL, tcpURL, tcpURL2]) \<and>
   ListenOn (sampleConfig [unixURL, tcpURL, tcpURL2]) = [unixURL, tcpURL, tcpURL2] \<and>
   started (run env4 [Main, Main, Main, Main, Main, Main] init) = [unixURL, tcpURL] \<and>
   pc (run env4 [Main, Main, Main, Main, Main, Main] init) = Exited 1"
proof -
  have "boots env4 (sampleConfig [unixURL, tcpURL, tcpURL2])"
    by (simp add: boots_def env4_def sampleEnv_def sampleConfig_def sampleSource_def)
  moreover have "ListenOn (sampleConfig [unixURL, tcpURL, tcpURL2]) = [unixURL, tcpURL, tcpURL2]"
    by (simp add: sampleConfig_def)
  moreover have "started (run env4 [Main, Main, Main, Main, Main, Main] init) = [unixURL, tcpURL]"
    by code_simp
  moreover have "pc (run env4 [Main, Main, Main, Main, Main, Main] init) = Exited 1"
    by code_simp
  ultimately show ?thesis by simp
qed

theorem listeners_bind_configured_list_witness:
  "envconfigProcess env2 = Inr (sampleConfig [unixURL, tcpURL]) \<and>
   boots env2 (sampleConfig [unixURL, tcpURL]) \<and>
   listenAndServe env2 0 unixURL = None \<and> listenAndServe env2 1 tcpURL = None \<and>
   count_list [Main, Main, Signal, Main, Main] Main = 4 \<and>
   pc (run env2 [Main, Main, Signal, Main, Main] init) = AtWait \<and>
   started (run env2 [Main, Main, Signal, Main, Main] init) = [unixURL, tcpURL] \<and>
   started (run (env2\<lparr>interfaceAddrs := Inl ''no interfaces'',
                       getPublicURL := (\<lambda>addrs u. unixURL)\<rparr>)
              [Main, Main, Signal, Main, Main] init)
     = [unixURL, tcpURL] \<and>
   listenURL (run env2 [Main, Main, Signal, Main, Main] init)
     = Some (tcpURL\<lparr>Host := ''10.0.0.5:5006''\<rparr>)"
proof -
  let ?cfg = "sampleConfig [unixURL, tcpURL]"
  let ?sched = "[Main, Main, Signal, Main, Main]"
  have env: "envconfigProcess env2 = Inr ?cfg"
    by (simp add: env2_def sampleEnv_def)
  have b: "boots env2 ?cfg"
    by (simp add: boots_def env2_def sampleEnv_def sampleConfig_def sampleSource_def)
  have polls: "listenAndServe env2 0 unixURL = None" "listenAndServe env2 1 tcpURL = None"
    by (simp_all add: env2_def sampleEnv_def)
  have clean: "\<forall>k<length (ListenOn ?cfg). listenAndServe env2 k (ListenOn ?cfg ! k) = None"
    by (simp add: env2_def sampleEnv_def)
  have cnt: "count_list ?sched Main = 4" by simp
  have len: "length (ListenOn ?cfg) + 1 \<le> count_list ?sched Main"
    by (simp add: sampleConfig_def)
  have pc: "pc (run env2 ?sched init) = AtWait" by code_simp
  have u: "listenURL (run env2 ?sched init) = Some (tcpURL\<lparr>Host := ''10.0.0.5:5006''\<rparr>)"
    by code_simp
  have l: "ListenOn ?cfg = [unixURL, tcpURL]" by (simp add: sampleConfig_def)
  from listeners_bind_configured_list [where e = env2 and a = "Inl ''no interfaces''"
      and g = "\<lambda>addrs u. unixURL" and sched = ?sched and cfg = ?cfg] env b clean len
  have "started (run (env2\<lparr>interfaceAddrs := Inl ''no interfaces'',
                       getPublicURL := (\<lambda>addrs u. unixURL)\<rparr>) ?sched init) = ListenOn ?cfg \<and>
      started (run (env2\<lparr>interfaceAddrs := Inl ''no interfaces'',
                       getPublicURL := (\<lambda>addrs u. unixURL)\<rparr>) ?sched init)
        = started (run env2 ?sched init)"
    by blast
  then have full: "started (run (env2\<lparr>interfaceAddrs := Inl ''no interfaces'',
                       getPublicURL := (\<lambda>addrs u. unixURL)\<rparr>) ?sched init) = ListenOn ?cfg"
    and same: "started (run (env2\<lparr>interfaceAddrs := Inl ''no interfaces'',
                       getPublicURL := (\<lambda>addrs u. unixURL)\<rparr>) ?sched init)
        = started (run env2 ?sched init)"
    by blast+
  from full l have other: "started (run (env2\<lparr>interfaceAddrs := Inl ''no interfaces'',
                       getPublicURL := (\<lambda>addrs u. unixURL)\<rparr>) ?sched init) = [unixURL, tcpURL]"
    by (rule trans)
  from same [symmetric] other have own: "started (run env2 ?sched init) = [unixURL, tcpURL]"
    by (rule trans)
  from env b polls cnt pc u own other show ?thesis by simp
qed

text \<open>
  C8. If the X.509 source or its SVID cannot be obtained, no listener is ever started,
  and as soon as the main goroutine has run, the process has ended with status 1; when
  the configuration was read, the last entry logged is the \<open>Fatalf\<close> of the identity
  error.
\<close>

theorem identity_failure_fatal:
  assumes fail: "newX509Source e = Inl err \<or>
           (\<exists>source. newX509Source e = Inr source \<and> GetX509SVID source = Inl err)"
  shows "started (run e sched init) = [] \<and>
         (Main \<in> set sched \<longrightarrow>
            pc (run e sched init) = Exited 1 \<and>
            (envconfigUsage e = None \<and> envconfigProcess e = Inr cfg \<and>
             isRight (parseLevel e (LogLevel cfg)) \<longrightarrow>
               last (logs (run e sched init)) =
                 Logf FatalLevel ''error getting x509 source: %+v'' [AErr (Some err)] \<or>
               last (logs (run e sched init)) =
                 Logf FatalLevel ''error getting x509 svid: %+v'' [AErr (Some err)]))"
proof (cases "Main \<in> set sched")
  case False
  then have "started (run e sched init) = started init"
    using before_startup [of init sched e] by (simp add: init_def)
  with False show ?thesis by (simp add: init_def)
next
  case True
  then obtain t later where t: "pc t = AtStartup" "started t = started init"
    and r: "run e sched init = run e later (startup e t)"
    using run_first_Main [of init sched e] by (auto simp: init_def)
  from fail have dead: "pc (startup e t) = Exited 1" by (rule startup_no_identity)
  then have r': "run e sched init = startup e t"
    unfolding r by (simp add: run_dead)
  from t have "started (run e sched init) = []"
    unfolding r' by (simp add: init_def)
  moreover from dead have "pc (run e sched init) = Exited 1"
    unfolding r' .
  moreover have "envconfigUsage e = None \<and> envconfigProcess e = Inr cfg \<and>
             isRight (parseLevel e (LogLevel cfg)) \<longrightarrow>
               last (logs (run e sched init)) =
                 Logf FatalLevel ''error getting x509 source: %+v'' [AErr (Some err)] \<or>
               last (logs (run e sched init)) =
                 Logf FatalLevel ''error getting x509 svid: %+v'' [AErr (Some err)]"
    unfolding r' using startup_no_identity_log [OF fail, of cfg t] by blast
  ultimately show ?thesis by blast
qed

theorem identity_failure_fatal_witness:
  "newX509Source envNoIdentity = Inl ''workload endpoint socket address is not configured'' \<and>
   Main \<in> set [Signal, Main, Main, Main] \<and>
   envconfigUsage envNoIdentity = None \<and>
   envconfigProcess envNoIdentity = Inr (sampleConfig [unixURL, tcpURL]) \<and>
   isRight (parseLevel envNoIdentity (LogLevel (sampleConfig [unixURL, tcpURL]))) \<and>
   started (run envNoIdentity [Signal, Main, Main, Main] init) = [] \<and>
   pc (run envNoIdentity [Signal, Main, Main, Main] init) = Exited 1 \<and>
   last (logs (run envNoIdentity [Signal, Main, Main, Main] init)) =
     Logf FatalLevel ''error getting x509 source: %+v''
       [AErr (Some ''workload endpoint socket address is not configured'')]"
proof -
  let ?err = "''workload endpoint socket address is not configured''"
  let ?cfg = "sampleConfig [unixURL, tcpURL]"
  let ?sched = "[Signal, Main, Main, Main]"
  have fail: "newX509Source envNoIdentity = Inl ?err"
    by (simp add: envNoIdentity_def)
  have m: "Main \<in> set ?sched" by simp
  have ok: "envconfigUsage envNoIdentity = None" "envconfigProcess envNoIdentity = Inr ?cfg"
    "isRight (parseLevel envNoIdentity (LogLevel ?cfg))"
    by (simp_all add: envNoIdentity_def env2_def sampleEnv_def sampleConfig_def)
  from identity_failure_fatal [where e = envNoIdentity and err = ?err and sched = ?sched
      and cfg = ?cfg] fail m ok
  have "started (run envNoIdentity ?sched init) = [] \<and>
      pc (run envNoIdentity ?sched init) = Exited 1 \<and>
      (last (logs (run envNoIdentity ?sched init)) =
         Logf FatalLevel ''error getting x509 source: %+v'' [AErr (Some ?err)] \<or>
       last (logs (run envNoIdentity ?sched init)) =
         Logf FatalLevel ''error getting x509 svid: %+v'' [AErr (Some ?err)])"
    by blast
  moreover have "last (logs (run envNoIdentity ?sched init)) \<noteq>
         Logf FatalLevel ''error getting x509 svid: %+v'' [AErr (Some ?err)]"
    by code_simp
  ultimately show ?thesis using fail m ok by simp
qed

text \<open>
  C9, as amended. \<open>main\<close> does not check the list of listen addresses: when the
  configuration and the identity are obtained, the resolver is called with
  \<open>config.ListenOn\<close> as \<open>envconfig.Process\<close> delivered it, and its outcome is the
  outcome of the startup. For every list that is not empty, the element the resolver
  returns is within the list.
\<close>

theorem resolver_receives_configured_list:
  "(listenOn \<noteq> [] \<longrightarrow> (\<exists>i. defaultURL listenOn = Inr i \<and> i < length listenOn)) \<and>
   (envconfigUsage e = None \<and> envconfigProcess e = Inr cfg \<and>
    isRight (parseLevel e (LogLevel cfg)) \<and>
    newX509Source e = Inr source \<and> isRight (GetX509SVID source) \<longrightarrow>
      (case getPublishableURL e (ListenOn cfg) of
         Inl p \<Rightarrow> pc (run e [Main] init) = Panicked p
       | Inr (entries, u) \<Rightarrow>
           pc (run e [Main] init) = AtLoop 0 \<and> listenURL (run e [Main] init) = Some u))"
proof (intro conjI impI)
  assume "listenOn \<noteq> []"
  then show "\<exists>i. defaultURL listenOn = Inr i \<and> i < length listenOn"
    by (rule defaultURL_nonempty)
next
  assume h: "envconfigUsage e = None \<and> envconfigProcess e = Inr cfg \<and>
    isRight (parseLevel e (LogLevel cfg)) \<and>
    newX509Source e = Inr source \<and> isRight (GetX509SVID source)"
  have r: "run e [Main] init = startup e init"
    by (simp add: step_def main_step_def init_def)
  from h obtain l svid where "parseLevel e (LogLevel cfg) = Inr l" "GetX509SVID source = Inr svid"
    by (cases "parseLevel e (LogLevel cfg)"; cases "GetX509SVID source") auto
  with h show "case getPublishableURL e (ListenOn cfg) of
         Inl p \<Rightarrow> pc (run e [Main] init) = Panicked p
       | Inr (entries, u) \<Rightarrow>
           pc (run e [Main] init) = AtLoop 0 \<and> listenURL (run e [Main] init) = Some u"
    unfolding r
    by (cases "getPublishableURL e (ListenOn cfg)")
      (auto simp: startup_def Let_def split: option.splits)
qed

text \<open>
  A configuration whose list of listen addresses is empty reaches the resolver, whose
  access to the first element is out of range.
\<close>

theorem resolver_receives_configured_list_counterexample:
  "envconfigProcess envEmpty = Inr (sampleConfig []) \<and>
   ListenOn (sampleConfig []) = [] \<and>
   defaultURL (ListenOn (sampleConfig [])) = Inl (IndexOutOfRange 0 0) \<and>
   getPublishableURL envEmpty (ListenOn (sampleConfig [])) = Inl (IndexOutOfRange 0 0) \<and>
   pc (run envEmpty [Main] init) = Panicked (IndexOutOfRange 0 0)"
proof -
  have "envconfigProcess envEmpty = Inr (sampleConfig [])"
    by (simp add: envEmpty_def sampleEnv_def)
  moreover have "ListenOn (sampleConfig []) = []"
    by (simp add: sampleConfig_def)
  moreover have "defaultURL (ListenOn (sampleConfig [])) = Inl (IndexOutOfRange 0 0)"
    by code_simp
  moreover have "getPublishableURL envEmpty (ListenOn (sampleConfig [])) = Inl (IndexOutOfRange 0 0)"
    by code_simp
  moreover have "pc (run envEmpty [Main] init) = Panicked (IndexOutOfRange 0 0)"
    by code_simp
  ultimately show ?thesis by simp
qed

theorem resolver_receives_configured_list_witness:
  "[unixURL, tcpURL] \<noteq> [] \<and> defaultURL [unixURL, tcpURL] = Inr 1 \<and>
   1 < length [unixURL, tcpURL] \<and>
   envconfigUsage env2 = None \<and> envconfigProcess env2 = Inr (sampleConfig [unixURL, tcpURL]) \<and>
   isRight (parseLevel env2 (LogLevel (sampleConfig [unixURL, tcpURL]))) \<and>
   newX509Source env2 = Inr sampleSource \<and> isRight (GetX509SVID sampleSource) \<and>
   getPublishableURL env2 (ListenOn (sampleConfig [unixURL, tcpURL]))
     = Inr ([], tcpURL\<lparr>Host := ''10.0.0.5:5006''\<rparr>) \<and>
   pc (run env2 [Main] init) = AtLoop 0 \<and>
   listenURL (run env2 [Main] init) = Some (tcpURL\<lparr>Host := ''10.0.0.5:5006''\<rparr>)"
proof -
  let ?cfg = "sampleConfig [unixURL, tcpURL]"
  have ne: "[unixURL, tcpURL] \<noteq> []" by simp
  have d: "defaultURL [unixURL, tcpURL] = Inr 1" by code_simp
  have ok: "envconfigUsage env2 = None" "envconfigProcess env2 = Inr ?cfg"
    "isRight (parseLevel env2 (LogLevel ?cfg))" "newX509Source env2 = Inr sampleSource"
    "isRight (GetX509SVID sampleSource)"
    by (simp_all add: env2_def sampleEnv_def sampleConfig_def sampleSource_def)
  have g: "getPublishableURL env2 (ListenOn ?cfg) = Inr ([], tcpURL\<lparr>Host := ''10.0.0.5:5006''\<rparr>)"
    by code_simp
  from resolver_receives_configured_list [where listenOn = "[unixURL, tcpURL]" and e = env2
      and cfg = ?cfg and source = sampleSource] ne ok
  have "(\<exists>i. defaultURL [unixURL, tcpURL] = Inr i \<and> i < length [unixURL, tcpURL]) \<and>
      (case getPublishableURL env2 (ListenOn ?cfg) of
         Inl p \<Rightarrow> pc (run env2 [Main] init) = Panicked p
       | Inr (entries, u) \<Rightarrow>
           pc (run env2 [Main] init) = AtLoop 0 \<and> listenURL (run env2 [Main] init) = Some u)"
    by blast
  with g have "pc (run env2 [Main] init) = AtLoop 0 \<and>
      listenURL (run env2 [Main] init) = Some (tcpURL\<lparr>Host := ''10.0.0.5:5006''\<rparr>)"
    by simp
  with ne d ok g show ?thesis by simp
qed

text \<open>
  C10. The test of the scan is equality of the scheme with the string \<open>tcp\<close>: for every
  non-empty list whose schemes all differ from that string the representative is the
  first entry, and whenever the scan itself selects an entry, that entry's scheme is
  exactly \<open>tcp\<close>. Schemes such as \<open>tcp4\<close>, \<open>tcp6\<close>, \<open>udp\<close> and \<open>TCP\<close> are not
  selected by the scan.
\<close>

theorem defaultURL_exact_tcp:
  "(listenOn \<noteq> [] \<and> (\<forall>u\<in>set listenOn. Scheme u \<noteq> ''tcp'') \<longrightarrow>
      defaultURL listenOn = Inr 0) \<and>
   (scan listenOn 0 = Some i \<longrightarrow>
      defaultURL listenOn = Inr i \<and> Scheme (listenOn ! i) = ''tcp'') \<and>
   (scan [mkURL ''tcp4'' h [], mkURL ''tcp6'' h [], mkURL ''udp'' h [], mkURL ''TCP'' h []] 0
      = None)"
proof (intro conjI impI)
  assume "listenOn \<noteq> [] \<and> (\<forall>u\<in>set listenOn. Scheme u \<noteq> ''tcp'')"
  then show "defaultURL listenOn = Inr 0"
    by (simp add: defaultURL_def scan_no_tcp)
next
  assume "scan listenOn 0 = Some i"
  then show "defaultURL listenOn = Inr i"
    by (simp add: defaultURL_def)
next
  assume "scan listenOn 0 = Some i"
  then show "Scheme (listenOn ! i) = ''tcp''"
    by (rule scan_Some_tcp)
next
  show "scan [mkURL ''tcp4'' h [], mkURL ''tcp6'' h [], mkURL ''udp'' h [], mkURL ''TCP'' h []] 0
      = None"
    by (rule scan_no_tcp) (simp add: mkURL_def)
qed

theorem defaultURL_exact_tcp_witness:
  "[mkURL ''tcp4'' '':1'' [], mkURL ''TCP'' '':2'' [], mkURL ''udp'' '':3'' []] \<noteq> [] \<and>
   list_all (\<lambda>u. Scheme u \<noteq> ''tcp'')
     [mkURL ''tcp4'' '':1'' [], mkURL ''TCP'' '':2'' [], mkURL ''udp'' '':3'' []] \<and>
   defaultURL [mkURL ''tcp4'' '':1'' [], mkURL ''TCP'' '':2'' [], mkURL ''udp'' '':3'' []]
     = Inr 0 \<and>
   scan [mkURL ''tcp6'' '':1'' [], mkURL ''tcp'' '':2'' []] 0 = Some 1 \<and>
   defaultURL [mkURL ''tcp6'' '':1'' [], mkURL ''tcp'' '':2'' []] = Inr 1 \<and>
   Scheme ([mkURL ''tcp6'' '':1'' [], mkURL ''tcp'' '':2'' []] ! 1) = ''tcp''"
  using defaultURL_exact_tcp
      [of "[mkURL ''tcp4'' '':1'' [], mkURL ''TCP'' '':2'' [], mkURL ''udp'' '':3'' []]" 0 "[]"]
    defaultURL_exact_tcp [of "[mkURL ''tcp6'' '':1'' [], mkURL ''tcp'' '':2'' []]" 1 "[]"]
  by (simp add: defaultURL_def scan.simps mkURL_def)

end
